theory Spec2Isabelle
  imports Complex_Main "HOL-Library.Sublist" "HOL-Library.AList"
begin

section \<open>Python strings\<close>

text \<open>
  Python \<^verbatim>\<open>str\<close> values are modelled as \<^typ>\<open>string\<close> (character lists): a character
  of HOL is a code point below 256, and the string methods below are Python's on these
  code points.
\<close>

text \<open>\<^verbatim>\<open>s.find(sub)\<close>: the lowest index where \<open>sub\<close> occurs, \<open>None\<close> for Python's -1.\<close>

fun py_find :: "string \<Rightarrow> string \<Rightarrow> nat option" where
  "py_find sub [] = (if sub = [] then Some 0 else None)"
| "py_find sub (c # cs) =
     (if prefix sub (c # cs) then Some 0 else map_option Suc (py_find sub cs))"

text \<open>\<^verbatim>\<open>sub in s\<close>.\<close>

definition py_in :: "string \<Rightarrow> string \<Rightarrow> bool" where
  "py_in sub s = (py_find sub s \<noteq> None)"

text \<open>\<^verbatim>\<open>s.split(sep)\<close> for a non-empty separator; \<^verbatim>\<open>sep.join(xs)\<close>;
  \<^verbatim>\<open>s.endswith(suf)\<close>; \<^verbatim>\<open>s.replace(a, b)\<close> for single characters.\<close>

lemma py_find_bound: "py_find sub s = Some i \<Longrightarrow> i + length sub \<le> length s"
proof (induction s arbitrary: i)
  case Nil
  then show ?case by (simp split: if_splits)
next
  case (Cons c cs)
  show ?case
  proof (cases "prefix sub (c # cs)")
    case True
    with Cons.prems have "i = 0" by simp
    with prefix_length_le[OF True] show ?thesis by simp
  next
    case False
    with Cons.prems obtain j where "py_find sub cs = Some j" "i = Suc j" by auto
    with Cons.IH show ?thesis by simp
  qed
qed

function py_split :: "string \<Rightarrow> string \<Rightarrow> string list" where
  "py_split sep s =
     (if sep = [] then [s]
      else case py_find sep s of
        None \<Rightarrow> [s]
      | Some i \<Rightarrow> take i s # py_split sep (drop (i + length sep) s))"
  by pat_completeness auto

termination py_split
proof (relation "measure (\<lambda>(sep, s). length s)")
  show "wf (measure (\<lambda>(sep, s). length s))" by simp
next
  fix sep s :: string and i
  assume "sep \<noteq> []" and "py_find sep s = Some i"
  then have "i + length sep \<le> length s" and "0 < length sep"
    by (simp_all add: py_find_bound)
  then have "length s - (i + length sep) < length s"
    by linarith
  then show "((sep, drop (i + length sep) s), (sep, s)) \<in> measure (\<lambda>(sep, s). length s)"
    by simp
qed

declare py_split.simps [simp del]

fun py_join :: "string \<Rightarrow> string list \<Rightarrow> string" where
  "py_join sep [] = []"
| "py_join sep [x] = x"
| "py_join sep (x # y # ys) = x @ sep @ py_join sep (y # ys)"

definition py_endswith :: "string \<Rightarrow> string \<Rightarrow> bool" where
  "py_endswith s suf = (length suf \<le> length s \<and> drop (length s - length suf) s = suf)"

definition replace_char :: "char \<Rightarrow> char \<Rightarrow> string \<Rightarrow> string" where
  "replace_char a b s = map (\<lambda>c. if c = a then b else c) s"

text \<open>\<^verbatim>\<open>s.strip()\<close>: the characters Python counts as whitespace are removed from both
  ends; below 256 these are the space, U+0009 to U+000D, U+001C to U+001F, U+0085 and
  U+00A0.\<close>

definition is_space :: "char \<Rightarrow> bool" where
  "is_space c = (c \<in> set [CHR '' '', CHR 0x09, CHR 0x0A, CHR 0x0B, CHR 0x0C, CHR 0x0D,
                            CHR 0x1C, CHR 0x1D, CHR 0x1E, CHR 0x1F, CHR 0x85, CHR 0xA0])"

definition py_strip :: "string \<Rightarrow> string" where
  "py_strip s = rev (dropWhile is_space (rev (dropWhile is_space s)))"

text \<open>\<^verbatim>\<open>max(xs, key=key)\<close>: the first element whose key is maximal; \<open>None\<close> is the
  \<^verbatim>\<open>ValueError\<close> of an empty sequence.\<close>

fun py_max_from :: "('a \<Rightarrow> 'b::linorder) \<Rightarrow> 'a \<Rightarrow> 'a list \<Rightarrow> 'a" where
  "py_max_from key best [] = best"
| "py_max_from key best (x # xs) = py_max_from key (if key best < key x then x else best) xs"

definition py_max :: "('a \<Rightarrow> 'b::linorder) \<Rightarrow> 'a list \<Rightarrow> 'a option" where
  "py_max key xs = (case xs of [] \<Rightarrow> None | x # rest \<Rightarrow> Some (py_max_from key x rest))"

text \<open>The lower case of an ASCII letter, as SQLite's \<^verbatim>\<open>LIKE\<close> folds it.\<close>

definition ascii_lower :: "char \<Rightarrow> char" where
  "ascii_lower c =
     (let n = (of_char c :: nat)
      in if 65 \<le> n \<and> n \<le> 90 then char_of (n + 32) else c)"

text \<open>\<^verbatim>\<open>s.lower()\<close>: below 256 the capital letters are A to Z and U+00C0 to U+00DE
  without the multiplication sign U+00D7, each 32 below its small letter.\<close>

definition lower_char :: "char \<Rightarrow> char" where
  "lower_char c =
     (let n = (of_char c :: nat)
      in if (65 \<le> n \<and> n \<le> 90) \<or> (192 \<le> n \<and> n \<le> 222 \<and> n \<noteq> 215)
         then char_of (n + 32) else c)"

definition py_lower :: "string \<Rightarrow> string" where
  "py_lower s = map lower_char s"

text \<open>\<^verbatim>\<open>s.upper()\<close>: the small letters a to z and U+00E0 to U+00FE without the division
  sign U+00F7 go to the letter 32 below, and the sharp s U+00DF goes to the two letters
  SS. The capitals that Python gives for U+00B5 and U+00FF are U+039C and U+0178, which
  are no characters of the model; the two are left as they are, and like Python's
  results they differ from every ASCII character, so that the comparisons of an upper-cased
  string with an ASCII word come out as in Python.\<close>

definition upper_char :: "char \<Rightarrow> string" where
  "upper_char c =
     (let n = (of_char c :: nat)
      in if (97 \<le> n \<and> n \<le> 122) \<or> (224 \<le> n \<and> n \<le> 254 \<and> n \<noteq> 247)
         then [char_of (n - 32)]
         else if n = 223 then ''SS''
         else [c])"

definition py_upper :: "string \<Rightarrow> string" where
  "py_upper s = concat (map upper_char s)"

text \<open>\<^verbatim>\<open>s.find(sub, start)\<close>; the slice \<^verbatim>\<open>s[a:b]\<close> for indices that are not negative;
  \<^verbatim>\<open>s.splitlines()\<close>, whose line boundaries below 256 are U+000A to U+000D (a carriage
  return and a line feed after it being one boundary), U+001C to U+001E and U+0085.\<close>

definition py_find_from :: "string \<Rightarrow> string \<Rightarrow> nat \<Rightarrow> nat option" where
  "py_find_from sub s start =
     (if length s < start then None
      else map_option (\<lambda>i. i + start) (py_find sub (drop start s)))"

definition slice :: "string \<Rightarrow> nat \<Rightarrow> nat \<Rightarrow> string" where
  "slice s a b = take (b - a) (drop a s)"

definition is_linebreak :: "char \<Rightarrow> bool" where
  "is_linebreak c =
     (c \<in> set [CHR 0x0A, CHR 0x0B, CHR 0x0C, CHR 0x0D, CHR 0x1C, CHR 0x1D, CHR 0x1E, CHR 0x85])"

fun splitlines_from :: "string \<Rightarrow> string \<Rightarrow> string list" where
  "splitlines_from cur [] = (if cur = [] then [] else [rev cur])"
| "splitlines_from cur (c # cs) =
     (if c = CHR 0x0D
      then (case cs of
              [] \<Rightarrow> [rev cur]
            | d # ds \<Rightarrow> if d = CHR 0x0A then rev cur # splitlines_from [] ds
                        else rev cur # splitlines_from [] (d # ds))
      else if is_linebreak c then rev cur # splitlines_from [] cs
      else splitlines_from (c # cur) cs)"

definition py_splitlines :: "string \<Rightarrow> string list" where
  "py_splitlines s = splitlines_from [] s"

text \<open>Python exceptions that the modelled code raises or lets through, with their
  message where the source gives one. \<open>SyntaxError\<close> stands for the exception and its
  subclasses, \<open>OtherException\<close> for any exception of a library call that the source does
  not name.\<close>

datatype py_error =
    ValueError string
  | AttributeError string
  | SyntaxError
  | ParserSyntaxError
  | OtherException string

text \<open>More of Python's string methods: \<^verbatim>\<open>s.split(sep, 1)\<close> unpacked into two names
  (\<open>None\<close> is the \<^verbatim>\<open>ValueError\<close> of the unpacking when \<open>sep\<close> does not occur),
  \<^verbatim>\<open>s.strip('\n')\<close>, \<^verbatim>\<open>s.replace(old, new)\<close> and \<^verbatim>\<open>s.replace(old, new, 1)\<close>
  (the first for a non-empty \<open>old\<close>), \<^verbatim>\<open>s.rfind(c, 0, end)\<close> for a character.\<close>

definition split_once :: "string \<Rightarrow> string \<Rightarrow> (string \<times> string) option" where
  "split_once sep s =
     (case py_find sep s of
        None \<Rightarrow> None
      | Some i \<Rightarrow> Some (take i s, drop (i + length sep) s))"

definition strip_newlines :: "string \<Rightarrow> string" where
  "strip_newlines s =
     rev (dropWhile (\<lambda>c. c = CHR 0x0A) (rev (dropWhile (\<lambda>c. c = CHR 0x0A) s)))"

definition py_replace_all :: "string \<Rightarrow> string \<Rightarrow> string \<Rightarrow> string" where
  "py_replace_all old new s = py_join new (py_split old s)"

definition py_replace_first :: "string \<Rightarrow> string \<Rightarrow> string \<Rightarrow> string" where
  "py_replace_first old new s =
     (case py_find old s of
        None \<Rightarrow> s
      | Some i \<Rightarrow> take i s @ new @ drop (i + length old) s)"

definition py_rfind_char :: "char \<Rightarrow> string \<Rightarrow> nat \<Rightarrow> nat option" where
  "py_rfind_char c s end_idx =
     (let t = take end_idx s
      in case py_find [c] (rev t) of
           None \<Rightarrow> None
         | Some i \<Rightarrow> Some (length t - 1 - i))"

section \<open>Dependency graph (core/graph.py)\<close>

text \<open>The part of \<^verbatim>\<open>networkx.DiGraph\<close> the class uses: a set of nodes and a set of
  directed edges; adding an edge adds its end points.\<close>

record digraph =
  nodes :: "string set"
  edges :: "(string \<times> string) set"

definition empty_graph :: digraph where
  "empty_graph = \<lparr>nodes = {}, edges = {}\<rparr>"

definition add_node :: "string \<Rightarrow> digraph \<Rightarrow> digraph" where
  "add_node p g = g\<lparr>nodes := insert p (nodes g)\<rparr>"

definition add_edge :: "string \<Rightarrow> string \<Rightarrow> digraph \<Rightarrow> digraph" where
  "add_edge u v g = g\<lparr>nodes := insert u (insert v (nodes g)), edges := insert (u, v) (edges g)\<rparr>"

type_synonym module_map = "string \<rightharpoonup> string"

text \<open>\<^verbatim>\<open>_build_module_map\<close>: one loop iteration, then the loop.\<close>

definition module_map_step :: "string \<Rightarrow> module_map \<Rightarrow> module_map" where
  "module_map_step path_str m =
     (if \<not> py_endswith path_str ''.py'' then m
      else
        let module_name = replace_char (CHR 0x5C) CHR ''.''
              (replace_char CHR ''/'' CHR ''.'' (take (length path_str - 3) path_str));
            m1 = m(module_name \<mapsto> path_str)
        in if py_endswith path_str ''__init__.py''
           then
             let pkg_name = replace_char (CHR 0x5C) CHR ''.''
                   (replace_char CHR ''/'' CHR ''.'' (take (length path_str - 12) path_str))
             in m1(pkg_name \<mapsto> path_str)
           else m1)"

definition build_module_map :: "string list \<Rightarrow> module_map \<Rightarrow> module_map" where
  "build_module_map paths m = fold module_map_step paths m"

text \<open>\<^verbatim>\<open>_resolve_import\<close>: the loop \<^verbatim>\<open>for i in range(len(parts), 0, -1)\<close> is
  \<open>peel_back\<close>, counting \<open>i\<close> down; \<open>None\<close> is Python's \<^verbatim>\<open>None\<close>.\<close>

fun peel_back :: "module_map \<Rightarrow> string list \<Rightarrow> nat \<Rightarrow> string option" where
  "peel_back m parts 0 = None"
| "peel_back m parts (Suc i) =
     (let candidate_module = py_join ''.'' (take (Suc i) parts)
      in case m candidate_module of
           Some path \<Rightarrow> Some path
         | None \<Rightarrow> peel_back m parts i)"

definition resolve_import :: "module_map \<Rightarrow> string \<Rightarrow> string option" where
  "resolve_import m import_str =
     (let parts = py_split ''.'' import_str in peel_back m parts (length parts))"

text \<open>The candidates of the peel-back, named for the statements below: the number of
  dot-separated segments of an import string and its prefix of the first \<open>i\<close> segments.\<close>

definition n_segments :: "string \<Rightarrow> nat" where
  "n_segments import_str = length (py_split ''.'' import_str)"

definition dotted_prefix :: "string \<Rightarrow> nat \<Rightarrow> string" where
  "dotted_prefix import_str i = py_join ''.'' (take i (py_split ''.'' import_str))"

text \<open>The state of the edge loops: the graph, \<^verbatim>\<open>resolved_count\<close> and
  \<^verbatim>\<open>unresolved\<close>. \<open>link_import\<close> is the body both loops share, from
  \<^verbatim>\<open>target_path = self._resolve_import(import_str)\<close> on; a target that is the empty
  string is falsy in Python and counts as unresolved.\<close>

record edge_state =
  graph :: digraph
  resolved_count :: nat
  unresolved :: "string set"

definition link_import :: "module_map \<Rightarrow> string \<Rightarrow> string \<Rightarrow> edge_state \<Rightarrow> edge_state" where
  "link_import m importer_path import_str st =
     (case resolve_import m import_str of
        Some target_path \<Rightarrow>
          if target_path \<noteq> [] then
            (if target_path \<noteq> importer_path
             then st\<lparr>graph := add_edge importer_path target_path (graph st),
                     resolved_count := resolved_count st + 1\<rparr>
             else st)
          else st\<lparr>unresolved := insert import_str (unresolved st)\<rparr>
      | None \<Rightarrow> st\<lparr>unresolved := insert import_str (unresolved st)\<rparr>)"

text \<open>The persisted index as \<^verbatim>\<open>_build_from_database\<close> reads it: the rows of
  \<^verbatim>\<open>SELECT id, path FROM files\<close> and of
  \<^verbatim>\<open>SELECT source_file_id, module_name FROM imports\<close>; \<open>None\<close> is a query that
  raises \<^verbatim>\<open>sqlite3.Error\<close>. The result of the build carries whether it ran to its end:
  what it had added to the graph before an error stays.\<close>

record database =
  file_rows :: "(int \<times> string) list option"
  import_rows :: "(int \<times> string) list option"

definition database_import_step ::
  "module_map \<Rightarrow> (int \<rightharpoonup> string) \<Rightarrow> int \<times> string \<Rightarrow> edge_state \<Rightarrow> edge_state" where
  "database_import_step m id_to_path row st =
     (case id_to_path (fst row) of
        None \<Rightarrow> st
      | Some importer_path \<Rightarrow> link_import m importer_path (snd row) st)"

definition build_from_database :: "database \<Rightarrow> module_map \<times> edge_state \<times> bool" where
  "build_from_database db =
     (case file_rows db of
        None \<Rightarrow> (Map.empty, \<lparr>graph = empty_graph, resolved_count = 0, unresolved = {}\<rparr>, False)
      | Some rows \<Rightarrow>
          (let g = fold (\<lambda>row. add_node (snd row)) rows empty_graph;
               id_to_path = fold (\<lambda>row f. f(fst row \<mapsto> snd row)) rows Map.empty;
               all_paths = map snd rows;
               m = build_module_map all_paths Map.empty;
               st = \<lparr>graph = g, resolved_count = 0, unresolved = {}\<rparr>
           in case import_rows db of
                None \<Rightarrow> (m, st, False)
              | Some import_list \<Rightarrow>
                  (m, fold (database_import_step m id_to_path) import_list st, True)))"

text \<open>\<^verbatim>\<open>_build_from_artifacts\<close>: the artifact dictionary in insertion order.\<close>

type_synonym artifacts = "(string \<times> string list) list"

definition artifact_step :: "module_map \<Rightarrow> string \<times> string list \<Rightarrow> edge_state \<Rightarrow> edge_state" where
  "artifact_step m entry st =
     (if fst entry \<notin> nodes (graph st) then st
      else fold (link_import m (fst entry)) (snd entry) st)"

definition build_from_artifacts :: "artifacts \<Rightarrow> module_map \<times> edge_state" where
  "build_from_artifacts arts =
     (let all_paths = map fst arts;
          g = fold add_node all_paths empty_graph;
          m = build_module_map all_paths Map.empty
      in (m, fold (artifact_step m) arts \<lparr>graph = g, resolved_count = 0, unresolved = {}\<rparr>))"

text \<open>\<^verbatim>\<open>DependencyGraph.build\<close>. The object's fields are the record; a database that
  cannot be opened is \<open>None\<close>. An exception of the build is caught: the graph stays as
  the build left it and \<^verbatim>\<open>is_built\<close> is False.\<close>

record dependency_graph =
  dg_graph :: digraph
  is_built :: bool
  module_to_path :: module_map

definition build :: "database option \<Rightarrow> artifacts option \<Rightarrow> dependency_graph" where
  "build db from_artifacts =
     (case from_artifacts of
        Some arts \<Rightarrow>
          (let (m, st) = build_from_artifacts arts
           in \<lparr>dg_graph = graph st, is_built = True, module_to_path = m\<rparr>)
      | None \<Rightarrow>
          (case db of
             None \<Rightarrow> \<lparr>dg_graph = empty_graph, is_built = False, module_to_path = Map.empty\<rparr>
           | Some d \<Rightarrow>
               (let (m, st, completed) = build_from_database d
                in \<lparr>dg_graph = graph st, is_built = completed, module_to_path = m\<rparr>)))"

section \<open>Suspicious-output heuristic (core/worker/utils.py)\<close>

text \<open>
  \<^verbatim>\<open>_is_suspicious(self, original, proposed)\<close>. The length test
  \<^verbatim>\<open>len(proposed) < len(original) * 0.3\<close>, a float comparison in the source, is
  written over the integers as \<open>10 * len(proposed) < 3 * len(original)\<close>.
\<close>

definition is_suspicious :: "string \<Rightarrow> string \<Rightarrow> bool" where
  "is_suspicious original proposed =
     (if original = [] then False
      else if 10 * length proposed < 3 * length original \<and> length original > 500 then True
      else if py_in ''As an AI'' proposed \<or> py_in ''I cannot'' proposed then True
      else False)"

text \<open>
  Step 4 of the loop body of \<^verbatim>\<open>Worker.create_diff_draft\<close>: every entry of
  \<^verbatim>\<open>files_to_update\<close> is checked with an empty original, a warning is printed for a
  flagged entry, and the entry is stored in the working cache. The state is the pair of
  the cache and the paths printed as suspicious.
\<close>

type_synonym working = "(string \<times> string) list"

fun stage_files :: "(string \<times> string) list \<Rightarrow> working \<times> string list \<Rightarrow> working \<times> string list" where
  "stage_files [] st = st"
| "stage_files ((path, content) # rest) (working, flagged) =
     stage_files rest
       (AList.update path content working,
        if is_suspicious [] content then flagged @ [path] else flagged)"

section \<open>Fuzzy file resolver (core/planner/utils.py)\<close>

text \<open>
  The \<^verbatim>\<open>files\<close> table is the list of its \<open>(id, path)\<close> rows, in the order the
  queries return them. Scores are Python floats in the source; they are modelled as exact
  rationals.
\<close>

record file_match =
  file_id :: int
  match_path :: string
  score :: rat
  match_type :: string

type_synonym files_table = "(int \<times> string) list"

text \<open>SQLite's \<^verbatim>\<open>LIKE\<close>: \<open>%\<close> matches any run of characters, \<open>_\<close> any single
  character, and ASCII letters match without regard to case.\<close>

fun sql_like :: "string \<Rightarrow> string \<Rightarrow> bool" where
  "sql_like [] s = (s = [])"
| "sql_like (p # ps) [] = (p = CHR ''%'' \<and> sql_like ps [])"
| "sql_like (p # ps) (c # cs) =
     (if p = CHR ''%'' then sql_like ps (c # cs) \<or> sql_like (p # ps) cs
      else (p = CHR ''_'' \<or> ascii_lower p = ascii_lower c) \<and> sql_like ps cs)"

text \<open>\<^verbatim>\<open>_path_similarity\<close> and \<^verbatim>\<open>_levenshtein_ratio\<close>.\<close>

definition path_similarity :: "string \<Rightarrow> string \<Rightarrow> rat" where
  "path_similarity p1 p2 =
     (let parts1 = py_split ''/'' p1; parts2 = py_split ''/'' p2;
          common = card (set parts1 \<inter> set parts2)
      in if parts1 \<noteq> [] \<or> parts2 \<noteq> []
         then of_nat common / of_nat (max (length parts1) (length parts2))
         else 0)"

definition levenshtein_ratio :: "string \<Rightarrow> string \<Rightarrow> rat" where
  "levenshtein_ratio s1 s2 =
     (if s1 = [] \<or> s2 = [] then 0
      else if py_in s1 s2 \<or> py_in s2 s1
      then of_nat (max (length s1) (length s2)) / of_nat (max (max (length s1) (length s2)) 1)
      else of_nat (card (set s1 \<inter> set s2)) / of_nat (max (card (set s1)) (card (set s2))))"

text \<open>The four strategies. \<open>suffix_rows\<close> and \<open>filename_rows\<close> are the results of the two
  \<^verbatim>\<open>LIKE\<close> queries.\<close>

definition exact_match :: "files_table \<Rightarrow> string \<Rightarrow> file_match option" where
  "exact_match tbl p =
     (case filter (\<lambda>row. snd row = p) tbl of
        [] \<Rightarrow> None
      | row # _ \<Rightarrow> Some \<lparr>file_id = fst row, match_path = snd row, score = 1, match_type = ''exact''\<rparr>)"

definition suffix_rows :: "files_table \<Rightarrow> string \<Rightarrow> files_table" where
  "suffix_rows tbl p = filter (\<lambda>row. sql_like (CHR ''%'' # p) (snd row)) tbl"

definition suffix_match :: "files_table \<Rightarrow> string \<Rightarrow> file_match option" where
  "suffix_match tbl p =
     (case py_max (\<lambda>r. path_similarity p (snd r)) (suffix_rows tbl p) of
        None \<Rightarrow> None
      | Some best \<Rightarrow>
          let sim = path_similarity p (snd best)
          in Some \<lparr>file_id = fst best, match_path = snd best, score = (8 / 10) * sim,
                    match_type = ''suffix''\<rparr>)"

definition filename_rows :: "files_table \<Rightarrow> string \<Rightarrow> files_table" where
  "filename_rows tbl p = suffix_rows tbl (last (py_split ''/'' p))"

definition shared_parts :: "string \<Rightarrow> string \<Rightarrow> nat" where
  "shared_parts p candidate = card (set (py_split ''/'' candidate) \<inter> set (py_split ''/'' p))"

definition filename_match :: "files_table \<Rightarrow> string \<Rightarrow> file_match option" where
  "filename_match tbl p =
     (case py_max (\<lambda>r. shared_parts p (snd r)) (filename_rows tbl p) of
        None \<Rightarrow> None
      | Some best \<Rightarrow>
          let ratio = of_nat (shared_parts p (snd best)) / of_nat (card (set (py_split ''/'' p)))
          in Some \<lparr>file_id = fst best, match_path = snd best, score = (4 / 10) * ratio,
                    match_type = ''filename''\<rparr>)"

definition fuzzy_match :: "files_table \<Rightarrow> string \<Rightarrow> file_match option" where
  "fuzzy_match tbl p =
     (case py_max snd (map (\<lambda>f. (f, levenshtein_ratio p (snd f))) tbl) of
        None \<Rightarrow> None
      | Some (best, ratio) \<Rightarrow>
          if 5 / 10 \<le> ratio
          then Some \<lparr>file_id = fst best, match_path = snd best, score = (6 / 10) * ratio,
                     match_type = ''fuzzy''\<rparr>
          else None)"

text \<open>The loop of \<^verbatim>\<open>FileResolver.resolve\<close> over its strategies, with
  \<^verbatim>\<open>best_match\<close> as the accumulator and the early \<^verbatim>\<open>break\<close> at 0.95, then the
  function itself.\<close>

fun try_strategies ::
  "(string \<Rightarrow> file_match option) list \<Rightarrow> string \<Rightarrow> file_match option \<Rightarrow> file_match option" where
  "try_strategies [] normalized best_match = best_match"
| "try_strategies (strategy # rest) normalized best_match =
     (case strategy normalized of
        None \<Rightarrow> try_strategies rest normalized best_match
      | Some m \<Rightarrow>
          if (case best_match of None \<Rightarrow> True | Some b \<Rightarrow> score b < score m)
          then (if 95 / 100 \<le> score m then Some m
                else try_strategies rest normalized (Some m))
          else try_strategies rest normalized best_match)"

definition best_candidate :: "files_table \<Rightarrow> string \<Rightarrow> file_match option" where
  "best_candidate tbl path_fragment =
     (let normalized = py_strip (replace_char (CHR 0x5C) CHR ''/'' path_fragment)
      in try_strategies [exact_match tbl, suffix_match tbl, filename_match tbl, fuzzy_match tbl]
           normalized None)"

definition resolve :: "files_table \<Rightarrow> string \<Rightarrow> file_match option" where
  "resolve tbl path_fragment =
     (case best_candidate tbl path_fragment of
        None \<Rightarrow> None
      | Some best_match \<Rightarrow> if score best_match < 3 / 10 then None else Some best_match)"

section \<open>Worker strategies (core/worker/strategies.py, core/worker/utils.py)\<close>

text \<open>\<^verbatim>\<open>_clean_llm_code\<close>. For text that starts with a code fence the source calls
  \<^verbatim>\<open>lines.startswith\<close> on the list of lines, which raises \<^verbatim>\<open>AttributeError\<close>; the
  list is not empty there, since the text is not.\<close>

definition clean_llm_code :: "string \<Rightarrow> py_error + string" where
  "clean_llm_code raw_code =
     (let raw = py_strip raw_code
      in if prefix ''```'' raw
         then (if py_splitlines raw \<noteq> []
               then Inl (AttributeError ''list object has no attribute startswith'')
               else Inr (py_strip (py_join ''\<newline>'' (py_splitlines raw))))
         else Inr (py_strip raw))"

text \<open>The parsing block of \<^verbatim>\<open>_extract_and_modify\<close>, from the generator's response to
  the two contents. The printed diagnostics are the list of warnings. \<open>ast_check\<close> is the
  call of \<^verbatim>\<open>ast.parse\<close>, whose tree is not used: \<open>None\<close> when it returns, the exception
  when it raises. A \<^verbatim>\<open>SyntaxError\<close> is caught and printed as a warning; any other
  exception leaves the function through \<^verbatim>\<open>raise e\<close>.\<close>

datatype warning = TruncatedOutput | SourceSyntaxError

record extracted =
  target_content :: string
  source_content :: string
  warnings :: "warning list"

definition target_marker :: string where "target_marker = ''<<<<<<< TARGET_CONTENT''"
definition mid_marker :: string where "mid_marker = ''=======''"
definition source_marker :: string where "source_marker = ''<<<<<<< SOURCE_CONTENT''"
definition end_marker :: string where "end_marker = ''>>>>>>>''"

definition parse_extract_and_modify ::
  "(string \<Rightarrow> py_error option) \<Rightarrow> string \<Rightarrow> string \<Rightarrow> py_error + extracted" where
  "parse_extract_and_modify ast_check source_file raw_response =
     (case (py_find target_marker raw_response, py_find mid_marker raw_response) of
        (Some t_start, Some t_end) \<Rightarrow>
          (let target_text = py_strip (slice raw_response (t_start + length target_marker) t_end)
           in case py_find_from source_marker raw_response t_end of
                None \<Rightarrow> Inl (ValueError ''Could not find SOURCE_CONTENT block start'')
              | Some s_start \<Rightarrow>
                  (let (source_text, truncation) =
                         (case py_find_from end_marker raw_response s_start of
                            None \<Rightarrow>
                              (py_strip (drop (s_start + length source_marker) raw_response),
                               [TruncatedOutput])
                          | Some s_end \<Rightarrow>
                              (py_strip (slice raw_response (s_start + length source_marker) s_end),
                               []))
                   in case clean_llm_code target_text of
                        Inl e \<Rightarrow> Inl e
                      | Inr target_clean \<Rightarrow>
                          (case clean_llm_code source_text of
                             Inl e \<Rightarrow> Inl e
                           | Inr source_clean \<Rightarrow>
                               (if py_endswith source_file ''.py'' then
                                  (case ast_check source_clean of
                                     None \<Rightarrow>
                                       Inr \<lparr>target_content = target_clean,
                                            source_content = source_clean,
                                            warnings = truncation\<rparr>
                                   | Some e \<Rightarrow>
                                       if e = SyntaxError
                                       then Inr \<lparr>target_content = target_clean,
                                                 source_content = source_clean,
                                                 warnings = truncation @ [SourceSyntaxError]\<rparr>
                                       else Inl e)
                                else Inr \<lparr>target_content = target_clean,
                                          source_content = source_clean,
                                          warnings = truncation\<rparr>))))
      | _ \<Rightarrow> Inl (ValueError ''Could not find TARGET_CONTENT block delimiters''))"

text \<open>A change step of the plan, with the fields the dispatcher reads, and the
  extraction map of the run.\<close>

record change_step =
  action :: string
  target_file :: string
  source_file :: "string option"
  description :: string
  detected_entities :: "string list"

record extraction_entry =
  moved_to :: "string list"
  symbols :: "string list"

type_synonym extraction_map = "string \<rightharpoonup> extraction_entry"

text \<open>\<^verbatim>\<open>_looks_like_delete\<close>.\<close>

definition looks_like_delete :: "change_step \<Rightarrow> bool" where
  "looks_like_delete instruction =
     (let desc = py_lower (description instruction);
          act = py_upper (action instruction)
      in if act = ''DELETE'' then True
         else if act = ''CREATE'' then False
         else if py_in ''delete file'' desc \<or> py_in ''remove file'' desc \<or> py_in ''drop file'' desc
         then True
         else
           let has_delete_keyword =
                 (py_in ''delete'' desc \<or> py_in ''drop'' desc \<or> py_in ''eliminate'' desc);
               is_remove_entity =
                 (py_in ''remove'' desc
                  \<and> (py_in ''function'' desc \<or> py_in ''class'' desc \<or> py_in ''method'' desc))
           in has_delete_keyword \<or> is_remove_entity)"

text \<open>\<^verbatim>\<open>_process_change\<close> as the choice of the engine: each result names the call the
  source makes in that branch, with the name set passed to \<^verbatim>\<open>remove_definitions_cst\<close>.
  An absent or empty \<^verbatim>\<open>source_file\<close> is falsy.\<close>

datatype route =
    SurgicalCreate
  | RemoveDefinitionsCst "string list"
  | ExtractAndModify
  | FullRewrite
  | SemanticDelete
  | PatchLargeFile

definition is_delete :: "string \<Rightarrow> bool" where
  "is_delete desc =
     (py_in ''remove'' (py_lower desc) \<or> py_in ''delete'' (py_lower desc)
      \<or> py_in ''cleanup'' (py_lower desc))"

definition mapped_symbols :: "extraction_map \<Rightarrow> string \<Rightarrow> string list" where
  "mapped_symbols emap target = (case emap target of None \<Rightarrow> [] | Some e \<Rightarrow> symbols e)"

definition deletion_entities :: "change_step \<Rightarrow> extraction_map \<Rightarrow> string list" where
  "deletion_entities instruction emap =
     (let mapped = mapped_symbols emap (target_file instruction);
          entities = detected_entities instruction
      in if entities = [] \<and> mapped \<noteq> [] then mapped else entities)"

definition fallback_route :: "string \<Rightarrow> change_step \<Rightarrow> route" where
  "fallback_route original instruction =
     (if py_upper (action instruction) = ''CREATE'' then FullRewrite
      else if looks_like_delete instruction then SemanticDelete
      else if 600 < length (py_splitlines original) then PatchLargeFile
      else FullRewrite)"

definition process_change :: "string \<Rightarrow> change_step \<Rightarrow> extraction_map \<Rightarrow> route" where
  "process_change original instruction emap =
     (let act = py_upper (action instruction);
          desc = description instruction
      in if act = ''CREATE'' \<and> source_file instruction \<noteq> None \<and> source_file instruction \<noteq> Some []
         then SurgicalCreate
         else if act = ''MODIFY'' \<and> is_delete desc \<and> deletion_entities instruction emap \<noteq> []
         then RemoveDefinitionsCst (deletion_entities instruction emap)
         else if act = ''EXTRACT_AND_MODIFY'' then ExtractAndModify
         else fallback_route original instruction)"

section \<open>Three-tier patch engine (core/patcher.py)\<close>

text \<open>The two indentation counts of the structural delete: the count over the text
  before the signature on its line, which looks at every character, and the count over
  a following line, which stops at the first character that is neither a space nor a
  tab.\<close>

definition target_indent_of :: "string \<Rightarrow> nat" where
  "target_indent_of before =
     sum_list (map (\<lambda>c. if c = CHR '' '' then 1 else if c = CHR 0x09 then 4 else 0) before)"

fun current_indent_of :: "string \<Rightarrow> nat" where
  "current_indent_of [] = 0"
| "current_indent_of (c # cs) =
     (if c = CHR '' '' then 1 + current_indent_of cs
      else if c = CHR 0x09 then 4 + current_indent_of cs
      else 0)"

definition next_line_end_of :: "string \<Rightarrow> nat \<Rightarrow> nat" where
  "next_line_end_of code curr_pos =
     (case py_find_from ''\<newline>'' code curr_pos of None \<Rightarrow> length code | Some e \<Rightarrow> e)"

lemma next_line_end_of_ge: "curr_pos \<le> length code \<Longrightarrow> curr_pos \<le> next_line_end_of code curr_pos"
  by (auto simp: next_line_end_of_def py_find_from_def split: option.splits)

text \<open>The \<^verbatim>\<open>while curr_pos < len(modified_code)\<close> loop that looks for the end of the
  block; the result is the final \<^verbatim>\<open>curr_pos\<close>.\<close>

function scan_block :: "string \<Rightarrow> nat \<Rightarrow> nat \<Rightarrow> nat" where
  "scan_block code target_indent curr_pos =
     (if curr_pos < length code then
        (let next_line_end = next_line_end_of code curr_pos;
             line_content = slice code curr_pos next_line_end
         in if py_strip line_content = [] then scan_block code target_indent (next_line_end + 1)
            else if current_indent_of line_content \<le> target_indent then curr_pos
            else scan_block code target_indent (next_line_end + 1))
      else curr_pos)"
  by pat_completeness auto
termination
proof (relation "measure (\<lambda>(code, target_indent, curr_pos). length code - curr_pos)")
  show "wf (measure (\<lambda>(code, target_indent, curr_pos). length code - curr_pos))" by simp
next
  fix code :: string and target_indent curr_pos x :: nat
  assume "curr_pos < length code" and "x = next_line_end_of code curr_pos"
  then have "curr_pos \<le> x" by (simp add: next_line_end_of_ge)
  with \<open>curr_pos < length code\<close>
  show "((code, target_indent, x + 1), (code, target_indent, curr_pos))
        \<in> measure (\<lambda>(code, target_indent, curr_pos). length code - curr_pos)"
    by simp
next
  fix code :: string and target_indent curr_pos x :: nat and xa :: string
  assume "curr_pos < length code" and "x = next_line_end_of code curr_pos"
  then have "curr_pos \<le> x" by (simp add: next_line_end_of_ge)
  with \<open>curr_pos < length code\<close>
  show "((code, target_indent, x + 1), (code, target_indent, curr_pos))
        \<in> measure (\<lambda>(code, target_indent, curr_pos). length code - curr_pos)"
    by simp
qed

declare scan_block.simps [simp del]

text \<open>Strategy 1 of \<^verbatim>\<open>apply_patches_robust\<close>, for a search block that holds the
  elision marker: \<open>None\<close> when the signature is not found.\<close>

definition smart_delete :: "string \<Rightarrow> string \<Rightarrow> string \<Rightarrow> string option" where
  "smart_delete modified_code search_block replace_block =
     (let signature = py_strip (py_replace_all ''<ELLIPSIS>'' [] search_block)
      in case py_find signature modified_code of
           None \<Rightarrow> None
         | Some start_idx \<Rightarrow>
             (let line_start = (case py_rfind_char (CHR 0x0A) modified_code start_idx of
                                  None \<Rightarrow> 0 | Some i \<Rightarrow> i + 1);
                  line_end = next_line_end_of modified_code start_idx;
                  target_indent = target_indent_of (slice modified_code line_start start_idx);
                  curr_pos = scan_block modified_code target_indent (line_end + 1)
              in Some (take line_start modified_code @ replace_block @ drop curr_pos modified_code)))"

text \<open>\<^verbatim>\<open>_apply_soft_match\<close>.\<close>

definition apply_soft_match :: "string \<Rightarrow> string \<Rightarrow> string \<Rightarrow> string option" where
  "apply_soft_match full_text search replace =
     (let search_lines = filter (\<lambda>l. l \<noteq> []) (map py_strip (py_splitlines search));
          text_lines = py_splitlines full_text
      in if search_lines = [] then None
         else
           case List.find
                  (\<lambda>i. map py_strip (take (length search_lines) (drop i text_lines)) = search_lines)
                  [0 ..< length text_lines + 1 - length search_lines] of
             None \<Rightarrow> None
           | Some i \<Rightarrow>
               Some (py_join ''\<newline>'' (take i text_lines) @ ''\<newline>'' @ replace @ ''\<newline>''
                     @ py_join ''\<newline>'' (drop (i + length search_lines) text_lines)))"

text \<open>One iteration of the loop over the blocks: the block is applied and gives the new
  text, or it is skipped without a message (a block without its delimiters, or the
  \<^verbatim>\<open>ValueError\<close> of an unpacking), or it fails with a printed message.\<close>

datatype outcome = Applied string | Skipped | Logged string

definition apply_block :: "string \<Rightarrow> string \<Rightarrow> outcome" where
  "apply_block modified_code block =
     (if \<not> py_in ''=======\<newline>'' block \<or> \<not> py_in ''>>>>>>>'' block then Skipped
      else
        case split_once ''\<newline>=======\<newline>'' block of
          None \<Rightarrow> Skipped
        | Some (search_raw, rest) \<Rightarrow>
            (case split_once ''\<newline>>>>>>>>'' rest of
               None \<Rightarrow> Skipped
             | Some (replace_raw, _) \<Rightarrow>
                 (let search_block = strip_newlines search_raw;
                      replace_block = strip_newlines replace_raw
                  in if py_in ''<ELLIPSIS>'' search_block then
                       (case smart_delete modified_code search_block replace_block of
                          Some code \<Rightarrow> Applied code
                        | None \<Rightarrow> Logged ''Smart Delete failed: Signature not found'')
                     else if py_in search_block modified_code then
                       Applied (py_replace_first search_block replace_block modified_code)
                     else
                       (case apply_soft_match modified_code search_block replace_block of
                          Some code \<Rightarrow>
                            if code \<noteq> [] then Applied code
                            else Logged ''Patch failed (No match found)''
                        | None \<Rightarrow> Logged ''Patch failed (No match found)''))))"

text \<open>The loop, with \<^verbatim>\<open>modified_code\<close>, \<^verbatim>\<open>applied_count\<close> and the printed messages
  as its state, and \<^verbatim>\<open>apply_patches_robust\<close> itself. \<open>effective_patch_text\<close> is the
  first statement of the function: of a patch text that holds a code fence only the text
  after the first fence, up to the second, is read. The removal of the artifacts of the
  previous loop, at the end of the function, touches the file system only and is left
  out.\<close>

record patch_state =
  modified_code :: string
  applied_count :: nat
  messages :: "string list"

fun run_blocks :: "string list \<Rightarrow> patch_state \<Rightarrow> patch_state" where
  "run_blocks [] st = st"
| "run_blocks (block # blocks) st =
     run_blocks blocks
       (case apply_block (modified_code st) block of
          Applied code \<Rightarrow> st\<lparr>modified_code := code, applied_count := applied_count st + 1\<rparr>
        | Skipped \<Rightarrow> st
        | Logged msg \<Rightarrow> st\<lparr>messages := messages st @ [msg]\<rparr>)"

definition effective_patch_text :: "string \<Rightarrow> string" where
  "effective_patch_text patch_text =
     (if py_in ''```'' patch_text
      then (case py_split ''```'' patch_text of _ # inner # _ \<Rightarrow> inner | _ \<Rightarrow> patch_text)
      else patch_text)"

definition search_marker :: string where
  "search_marker = ''<<<<<<< SEARCH\<newline>''"

definition patch_blocks :: "string \<Rightarrow> string list" where
  "patch_blocks patch_text = py_split search_marker (effective_patch_text patch_text)"

definition apply_patches_robust :: "string \<Rightarrow> string \<Rightarrow> py_error + patch_state" where
  "apply_patches_robust original_code patch_text =
     (let blocks = patch_blocks patch_text;
          st = run_blocks (tl blocks) \<lparr>modified_code = original_code, applied_count = 0, messages = []\<rparr>
      in if applied_count st = 0 \<and> 1 < length blocks
         then Inl (ValueError ''Failed to apply patches: No blocks matched.'')
         else Inr st)"


section \<open>Definition-level tree engines (core/ast_patcher.py, core/cst_patcher.py)\<close>

text \<open>
  The syntax trees of Python's \<^verbatim>\<open>ast\<close> module and of LibCST, as far as the two
  transformers look at them: a node is a function, async function or class definition
  with its name, or any other node (the module at the root, a statement, a handler);
  every node has the rest of its own content and its child nodes in source order.
  LibCST has no node of its own for an async function: it is a \<^verbatim>\<open>FunctionDef\<close> there.
  Parsing and rendering are the libraries' and are parameters of the two operations; a
  parser returns the tree or the exception it raises.
\<close>

datatype def_kind = FunctionDef | AsyncFunctionDef | ClassDef

datatype syntax_tree =
    Def def_kind string string "syntax_tree list"
  | Node string "syntax_tree list"

text \<open>\<^verbatim>\<open>DefinitionCollector\<close>: the names of the definitions at every depth.\<close>

fun collect :: "syntax_tree \<Rightarrow> string set"
  and collect_children :: "syntax_tree list \<Rightarrow> string set" where
  "collect (Def kind name content children) = insert name (collect_children children)"
| "collect (Node content children) = collect_children children"
| "collect_children [] = {}"
| "collect_children (t # ts) = collect t \<union> collect_children ts"

text \<open>\<^verbatim>\<open>DeletionTransformer\<close> of the abstract tree: a definition named in \<^verbatim>\<open>to_delete\<close>
  is dropped (the visitor returns \<^verbatim>\<open>None\<close>), every other node is kept with its children
  visited (\<^verbatim>\<open>generic_visit\<close>).\<close>

fun deletion_visit :: "string set \<Rightarrow> syntax_tree \<Rightarrow> syntax_tree option"
  and deletion_visit_children :: "string set \<Rightarrow> syntax_tree list \<Rightarrow> syntax_tree list" where
  "deletion_visit to_delete (Def kind name content children) =
     (if name \<in> to_delete then None
      else Some (Def kind name content (deletion_visit_children to_delete children)))"
| "deletion_visit to_delete (Node content children) =
     Some (Node content (deletion_visit_children to_delete children))"
| "deletion_visit_children to_delete [] = []"
| "deletion_visit_children to_delete (t # ts) =
     (case deletion_visit to_delete t of
        None \<Rightarrow> deletion_visit_children to_delete ts
      | Some t' \<Rightarrow> t' # deletion_visit_children to_delete ts)"


text \<open>\<^verbatim>\<open>delete_definitions\<close> and \<^verbatim>\<open>remove_definitions_cst\<close>. An exception of the
  parser leaves the operation. The root of a parsed source is the module node, which no
  visitor removes; for a root that is removed the calls that follow the visit fail.\<close>

definition delete_definitions ::
  "(string \<Rightarrow> py_error + syntax_tree) \<Rightarrow> (syntax_tree \<Rightarrow> string) \<Rightarrow> string \<Rightarrow> string list
     \<Rightarrow> py_error + string" where
  "delete_definitions ast_parse ast_unparse source names =
     (if names = [] then Inr source
      else
        case ast_parse source of
          Inl e \<Rightarrow> Inl e
        | Inr tree \<Rightarrow>
            (case deletion_visit (set names) tree of
               None \<Rightarrow> Inl (AttributeError ''NoneType object has no attribute _fields'')
             | Some new_tree \<Rightarrow> Inr (ast_unparse new_tree)))"



section \<open>Properties\<close>

subsection \<open>Suspicious output\<close>

lemma stage_files_flagged: "snd (stage_files files (w, fl)) = fl"
  by (induction files arbitrary: w fl) (auto simp: is_suspicious_def)

text \<open>
  C10: the suspicious-output predicate is False for an empty original whatever the proposed
  content is, also when it contains refusal phrasing; the staging loop always passes the
  empty original, so it never flags a staged file.
\<close>

theorem C10_empty_original_never_suspicious:
  "is_suspicious [] proposed = False
   \<and> is_suspicious [] (pre @ ''As an AI'' @ post) = False
   \<and> snd (stage_files files (w, fl)) = fl"
  by (simp add: stage_files_flagged) (simp add: is_suspicious_def)

subsection \<open>Import resolution and the dependency graph\<close>

lemma peel_back_None:
  "peel_back m parts n = None \<longleftrightarrow> (\<forall>i. 0 < i \<and> i \<le> n \<longrightarrow> m (py_join ''.'' (take i parts)) = None)"
proof (induction n)
  case 0
  show ?case by simp
next
  case (Suc n)
  show ?case
  proof (cases "m (py_join ''.'' (take (Suc n) parts))")
    case None
    then show ?thesis using Suc by (auto simp: le_Suc_eq)
  next
    case (Some p)
    then show ?thesis by auto
  qed
qed

lemma peel_back_Some:
  "peel_back m parts n = Some p \<longleftrightarrow>
     (\<exists>i. 0 < i \<and> i \<le> n \<and> m (py_join ''.'' (take i parts)) = Some p
          \<and> (\<forall>j. i < j \<and> j \<le> n \<longrightarrow> m (py_join ''.'' (take j parts)) = None))"
proof (induction n)
  case 0
  show ?case by simp
next
  case (Suc n)
  show ?case
  proof (cases "m (py_join ''.'' (take (Suc n) parts))")
    case None
    have "(\<exists>i. 0 < i \<and> i \<le> Suc n \<and> m (py_join ''.'' (take i parts)) = Some p
          \<and> (\<forall>j. i < j \<and> j \<le> Suc n \<longrightarrow> m (py_join ''.'' (take j parts)) = None))
        \<longleftrightarrow> (\<exists>i. 0 < i \<and> i \<le> n \<and> m (py_join ''.'' (take i parts)) = Some p
          \<and> (\<forall>j. i < j \<and> j \<le> n \<longrightarrow> m (py_join ''.'' (take j parts)) = None))"
      (is "?L \<longleftrightarrow> ?R")
    proof
      assume ?L
      then obtain i where i: "0 < i" "i \<le> Suc n" "m (py_join ''.'' (take i parts)) = Some p"
        "\<forall>j. i < j \<and> j \<le> Suc n \<longrightarrow> m (py_join ''.'' (take j parts)) = None" by blast
      with None have "i \<noteq> Suc n" by auto
      with i show ?R by (intro exI[of _ i]) auto
    next
      assume ?R
      then obtain i where i: "0 < i" "i \<le> n" "m (py_join ''.'' (take i parts)) = Some p"
        "\<forall>j. i < j \<and> j \<le> n \<longrightarrow> m (py_join ''.'' (take j parts)) = None" by blast
      with None show ?L by (intro exI[of _ i]) (auto simp: le_Suc_eq)
    qed
    with None Suc show ?thesis by simp
  next
    case (Some q)
    show ?thesis
    proof
      assume "peel_back m parts (Suc n) = Some p"
      with Some have "q = p" by simp
      with Some show "\<exists>i. 0 < i \<and> i \<le> Suc n \<and> m (py_join ''.'' (take i parts)) = Some p
          \<and> (\<forall>j. i < j \<and> j \<le> Suc n \<longrightarrow> m (py_join ''.'' (take j parts)) = None)"
        by (intro exI[of _ "Suc n"]) auto
    next
      assume "\<exists>i. 0 < i \<and> i \<le> Suc n \<and> m (py_join ''.'' (take i parts)) = Some p
          \<and> (\<forall>j. i < j \<and> j \<le> Suc n \<longrightarrow> m (py_join ''.'' (take j parts)) = None)"
      then obtain i where i: "0 < i" "i \<le> Suc n" "m (py_join ''.'' (take i parts)) = Some p"
        "\<forall>j. i < j \<and> j \<le> Suc n \<longrightarrow> m (py_join ''.'' (take j parts)) = None" by blast
      have "i = Suc n"
      proof (rule ccontr)
        assume "i \<noteq> Suc n"
        with i have "m (py_join ''.'' (take (Suc n) parts)) = None" by auto
        with Some show False by simp
      qed
      with i Some show "peel_back m parts (Suc n) = Some p" by simp
    qed
  qed
qed

lemma py_find_take_drop: "py_find sub s = Some i \<Longrightarrow> s = take i s @ sub @ drop (i + length sub) s"
proof (induction s arbitrary: i)
  case Nil
  then show ?case by (simp split: if_splits)
next
  case (Cons c cs)
  show ?case
  proof (cases "prefix sub (c # cs)")
    case True
    with Cons.prems have "i = 0" by simp
    with True show ?thesis by (auto simp: prefix_def)
  next
    case False
    with Cons.prems obtain j where j: "py_find sub cs = Some j" "i = Suc j" by auto
    from Cons.IH[OF j(1)] j(2) show ?thesis by simp
  qed
qed

lemma py_split_nonempty: "py_split sep s \<noteq> []"
  by (subst py_split.simps) (simp split: option.splits)

lemma py_join_Cons: "xs \<noteq> [] \<Longrightarrow> py_join sep (x # xs) = x @ sep @ py_join sep xs"
  by (cases xs) simp_all

lemma py_join_split: "py_join sep (py_split sep s) = s"
proof (induction sep s rule: py_split.induct)
  case (1 sep s)
  show ?case
  proof (cases "sep = []")
    case True
    then show ?thesis by (subst py_split.simps) simp
  next
    case False
    show ?thesis
    proof (cases "py_find sep s")
      case None
      with False show ?thesis by (subst py_split.simps) simp
    next
      case (Some i)
      with False have "py_split sep s = take i s # py_split sep (drop (i + length sep) s)"
        by (subst py_split.simps) simp
      then have "py_join sep (py_split sep s)
          = take i s @ sep @ py_join sep (py_split sep (drop (i + length sep) s))"
        by (simp add: py_join_Cons py_split_nonempty)
      also have "\<dots> = take i s @ sep @ drop (i + length sep) s"
        using "1.IH"[OF False Some] by simp
      also have "\<dots> = s"
        using py_find_take_drop[OF Some] by simp
      finally show ?thesis .
    qed
  qed
qed

lemma dotted_prefix_full: "dotted_prefix s (n_segments s) = s"
  by (simp add: dotted_prefix_def n_segments_def py_join_split)

text \<open>
  C3: peel-back resolution returns the file of the longest dot-separated prefix of the
  import string that the module index holds, the full string being the first candidate
  and the first segment the last; it returns no file exactly when no prefix is indexed.
  For \<open>pkg.mod.Class\<close> (not itself a module) with \<open>pkg.mod\<close> and \<open>pkg\<close> indexed, the
  result is the file of \<open>pkg.mod\<close>.
\<close>

theorem C3_peel_back_longest_prefix:
  "(resolve_import m s = None \<longleftrightarrow>
      (\<forall>i. 0 < i \<and> i \<le> n_segments s \<longrightarrow> m (dotted_prefix s i) = None))
   \<and> (resolve_import m s = Some p \<longleftrightarrow>
      (\<exists>i. 0 < i \<and> i \<le> n_segments s \<and> m (dotted_prefix s i) = Some p
           \<and> (\<forall>j. i < j \<and> j \<le> n_segments s \<longrightarrow> m (dotted_prefix s j) = None)))
   \<and> dotted_prefix s (n_segments s) = s
   \<and> (m ''pkg.mod.Class'' = None \<and> m ''pkg.mod'' = Some f \<and> m ''pkg'' = Some g
        \<longrightarrow> resolve_import m ''pkg.mod.Class'' = Some f)"
proof (intro conjI impI)
  show "resolve_import m s = None \<longleftrightarrow>
      (\<forall>i. 0 < i \<and> i \<le> n_segments s \<longrightarrow> m (dotted_prefix s i) = None)"
    by (simp add: resolve_import_def Let_def n_segments_def dotted_prefix_def peel_back_None)
  show "resolve_import m s = Some p \<longleftrightarrow>
      (\<exists>i. 0 < i \<and> i \<le> n_segments s \<and> m (dotted_prefix s i) = Some p
           \<and> (\<forall>j. i < j \<and> j \<le> n_segments s \<longrightarrow> m (dotted_prefix s j) = None))"
    by (simp add: resolve_import_def Let_def n_segments_def dotted_prefix_def peel_back_Some)
  show "dotted_prefix s (n_segments s) = s"
    by (rule dotted_prefix_full)
next
  assume a: "m ''pkg.mod.Class'' = None \<and> m ''pkg.mod'' = Some f \<and> m ''pkg'' = Some g"
  have parts: "py_split ''.'' ''pkg.mod.Class'' = [''pkg'', ''mod'', ''Class'']"
    by (simp add: py_split.simps)
  show "resolve_import m ''pkg.mod.Class'' = Some f"
    using a by (simp add: resolve_import_def parts)
qed

theorem C3_peel_back_witness:
  "build_module_map [''pkg/__init__.py'', ''pkg/mod.py''] Map.empty ''pkg.mod.Class'' = None
   \<and> build_module_map [''pkg/__init__.py'', ''pkg/mod.py''] Map.empty ''pkg.mod'' = Some ''pkg/mod.py''
   \<and> build_module_map [''pkg/__init__.py'', ''pkg/mod.py''] Map.empty ''pkg'' = Some ''pkg/__init__.py''
   \<and> resolve_import (build_module_map [''pkg/__init__.py'', ''pkg/mod.py''] Map.empty) ''pkg.mod.Class''
       = Some ''pkg/mod.py''"
proof -
  have h: "build_module_map [''pkg/__init__.py'', ''pkg/mod.py''] Map.empty ''pkg.mod.Class'' = None
   \<and> build_module_map [''pkg/__init__.py'', ''pkg/mod.py''] Map.empty ''pkg.mod'' = Some ''pkg/mod.py''
   \<and> build_module_map [''pkg/__init__.py'', ''pkg/mod.py''] Map.empty ''pkg'' = Some ''pkg/__init__.py''"
    by (simp add: build_module_map_def module_map_step_def py_endswith_def replace_char_def)
  from C3_peel_back_longest_prefix[of "build_module_map [''pkg/__init__.py'', ''pkg/mod.py''] Map.empty"
      "''pkg.mod.Class''" "''pkg/mod.py''" "''pkg/mod.py''" "''pkg/__init__.py''"] h
  show ?thesis by blast
qed

lemma add_edge_edges: "edges (add_edge u v g) = insert (u, v) (edges g)"
  by (simp add: add_edge_def)

lemma add_node_edges: "edges (add_node p g) = edges g"
  by (simp add: add_node_def)

lemma link_import_loop_free:
  "(p, p) \<notin> edges (graph st) \<Longrightarrow> (p, p) \<notin> edges (graph (link_import m importer s st))"
  by (auto simp: link_import_def add_edge_edges split: option.splits)

lemma fold_link_import_loop_free:
  "(p, p) \<notin> edges (graph st) \<Longrightarrow> (p, p) \<notin> edges (graph (fold (link_import m importer) ss st))"
  by (induction ss arbitrary: st) (simp_all add: link_import_loop_free)

lemma fold_database_step_loop_free:
  "(p, p) \<notin> edges (graph st)
   \<Longrightarrow> (p, p) \<notin> edges (graph (fold (database_import_step m ids) rows st))"
proof (induction rows arbitrary: st)
  case Nil
  then show ?case by simp
next
  case (Cons r rows)
  have "(p, p) \<notin> edges (graph (database_import_step m ids r st))"
    using Cons.prems by (simp add: database_import_step_def link_import_loop_free split: option.splits)
  then show ?case using Cons.IH by simp
qed

lemma fold_artifact_step_loop_free:
  "(p, p) \<notin> edges (graph st) \<Longrightarrow> (p, p) \<notin> edges (graph (fold (artifact_step m) arts st))"
proof (induction arts arbitrary: st)
  case Nil
  then show ?case by simp
next
  case (Cons a arts)
  have "(p, p) \<notin> edges (graph (artifact_step m a st))"
    using Cons.prems by (simp add: artifact_step_def fold_link_import_loop_free)
  then show ?case using Cons.IH by simp
qed

lemma fold_add_node_edges: "edges (fold (\<lambda>x. add_node (f x)) xs g) = edges g"
  by (induction xs arbitrary: g) (simp_all add: add_node_edges)

lemma build_from_database_loop_free:
  "(p, p) \<notin> edges (graph (fst (snd (build_from_database db))))"
  by (simp add: build_from_database_def Let_def fold_database_step_loop_free
        fold_add_node_edges empty_graph_def split: option.splits)

lemma build_from_artifacts_loop_free: "(p, p) \<notin> edges (graph (snd (build_from_artifacts arts)))"
proof -
  have "edges (fold add_node (map fst arts) empty_graph) = {}"
    using fold_add_node_edges[of "\<lambda>x. x" "map fst arts" empty_graph]
    by (simp add: empty_graph_def)
  then show ?thesis
    by (simp add: build_from_artifacts_def Let_def fold_artifact_step_loop_free)
qed

text \<open>
  C4: after every build, from the persisted index or from an artifact map, and also when
  the index cannot be opened or a query fails, the graph has no edge from a file to
  itself; an import string that resolves to its own importer leaves the edge state as it
  was.
\<close>

theorem C4_no_self_loops:
  "(p, p) \<notin> edges (dg_graph (build db from_artifacts))
   \<and> (resolve_import m s = Some importer \<and> importer \<noteq> []
        \<longrightarrow> link_import m importer s st = st)"
proof
  show "(p, p) \<notin> edges (dg_graph (build db from_artifacts))"
  proof (cases from_artifacts)
    case (Some arts)
    with build_from_artifacts_loop_free[of p arts] show ?thesis
      by (auto simp: build_def split: prod.splits)
  next
    case None
    show ?thesis
    proof (cases db)
      case None
      with \<open>from_artifacts = None\<close> show ?thesis by (simp add: build_def empty_graph_def)
    next
      case (Some d)
      with \<open>from_artifacts = None\<close> build_from_database_loop_free[of p d] show ?thesis
        by (auto simp: build_def split: prod.splits)
    qed
  qed
  show "resolve_import m s = Some importer \<and> importer \<noteq> [] \<longrightarrow> link_import m importer s st = st"
    by (simp add: link_import_def)
qed

theorem C4_no_self_loops_witness:
  "resolve_import (build_module_map [''a.py''] Map.empty) ''a'' = Some ''a.py''
   \<and> ''a.py'' \<noteq> []
   \<and> link_import (build_module_map [''a.py''] Map.empty) ''a.py'' ''a''
         \<lparr>graph = empty_graph, resolved_count = 0, unresolved = {}\<rparr>
       = \<lparr>graph = empty_graph, resolved_count = 0, unresolved = {}\<rparr>
   \<and> (''a.py'', ''a.py'') \<notin> edges (dg_graph (build None (Some [(''a.py'', [''a''])])))"
proof -
  have h: "resolve_import (build_module_map [''a.py''] Map.empty) ''a'' = Some ''a.py''"
    by (simp add: resolve_import_def py_split.simps build_module_map_def module_map_step_def
          py_endswith_def replace_char_def)
  from C4_no_self_loops[of "''a.py''" None "Some [(''a.py'', [''a''])]"
      "build_module_map [''a.py''] Map.empty" "''a''" "''a.py''"
      "\<lparr>graph = empty_graph, resolved_count = 0, unresolved = {}\<rparr>"] h
  show ?thesis by simp
qed

subsection \<open>File resolver\<close>

lemma try_strategies_source:
  "try_strategies strategies normalized best_match = Some m
   \<Longrightarrow> best_match = Some m \<or> (\<exists>strategy\<in>set strategies. strategy normalized = Some m)"
proof (induction strategies arbitrary: best_match)
  case Nil
  then show ?case by simp
next
  case (Cons strategy rest)
  show ?case
  proof (cases "strategy normalized")
    case None
    with Cons.prems have "try_strategies rest normalized best_match = Some m" by simp
    from Cons.IH[OF this] show ?thesis by auto
  next
    case (Some c)
    show ?thesis
    proof (cases "case best_match of None \<Rightarrow> True | Some b \<Rightarrow> score b < score c")
      case False
      with Some Cons.prems have "try_strategies rest normalized best_match = Some m" by simp
      from Cons.IH[OF this] show ?thesis by auto
    next
      case True
      show ?thesis
      proof (cases "95 / 100 \<le> score c")
        case True
        with Some \<open>case best_match of None \<Rightarrow> True | Some b \<Rightarrow> score b < score c\<close> Cons.prems
        have "c = m" by simp
        with Some show ?thesis by simp
      next
        case False
        with Some True Cons.prems have "try_strategies rest normalized (Some c) = Some m" by simp
        from Cons.IH[OF this] Some show ?thesis by auto
      qed
    qed
  qed
qed

text \<open>
  C7: the resolver never returns a candidate whose score is below 0.3: when the best
  candidate of the strategies scores below 0.3 the result is no match, and a returned
  match is the best candidate, comes from one of the four strategies and scores at least
  0.3.
\<close>

theorem C7_low_score_is_no_match:
  "(resolve tbl path_fragment = Some m
      \<longrightarrow> \<not> score m < 3 / 10 \<and> best_candidate tbl path_fragment = Some m
          \<and> (\<exists>strategy\<in>set [exact_match tbl, suffix_match tbl, filename_match tbl, fuzzy_match tbl].
                strategy (py_strip (replace_char (CHR 0x5C) CHR ''/'' path_fragment)) = Some m))
   \<and> (best_candidate tbl path_fragment = Some b \<and> score b < 3 / 10
      \<longrightarrow> resolve tbl path_fragment = None)"
proof (intro conjI impI)
  assume r: "resolve tbl path_fragment = Some m"
  then show "\<not> score m < 3 / 10"
    by (auto simp: resolve_def split: option.splits if_splits)
  from r show b: "best_candidate tbl path_fragment = Some m"
    by (auto simp: resolve_def split: option.splits if_splits)
  from try_strategies_source[of _ _ None m] b
  show "\<exists>strategy\<in>set [exact_match tbl, suffix_match tbl, filename_match tbl, fuzzy_match tbl].
          strategy (py_strip (replace_char (CHR 0x5C) CHR ''/'' path_fragment)) = Some m"
    unfolding best_candidate_def Let_def by blast
next
  assume "best_candidate tbl path_fragment = Some b \<and> score b < 3 / 10"
  then show "resolve tbl path_fragment = None"
    by (simp add: resolve_def)
qed

theorem C7_low_score_witness:
  "resolve [(1, ''core/scanner.py''), (2, ''core/scanner_old.py'')] ''scanner.py''
     = Some \<lparr>file_id = 1, match_path = ''core/scanner.py'', score = 3 / 5, match_type = ''fuzzy''\<rparr>
   \<and> \<not> score \<lparr>file_id = 1, match_path = ''core/scanner.py'', score = 3 / 5, match_type = ''fuzzy''\<rparr>
         < 3 / 10
   \<and> best_candidate [(1, ''x/a.py'')] ''bcdefghijk/a.py''
     = Some \<lparr>file_id = 1, match_path = ''x/a.py'', score = 1 / 5, match_type = ''filename''\<rparr>
   \<and> score \<lparr>file_id = 1, match_path = ''x/a.py'', score = 1 / 5, match_type = ''filename''\<rparr> < 3 / 10
   \<and> resolve [(1, ''x/a.py'')] ''bcdefghijk/a.py'' = None"
proof -
  have a: "resolve [(1, ''core/scanner.py''), (2, ''core/scanner_old.py'')] ''scanner.py''
     = Some \<lparr>file_id = 1, match_path = ''core/scanner.py'', score = 3 / 5, match_type = ''fuzzy''\<rparr>"
    by code_simp
  have b: "best_candidate [(1, ''x/a.py'')] ''bcdefghijk/a.py''
     = Some \<lparr>file_id = 1, match_path = ''x/a.py'', score = 1 / 5, match_type = ''filename''\<rparr>"
    by code_simp
  have c: "score \<lparr>file_id = 1, match_path = ''x/a.py'', score = 1 / 5, match_type = ''filename''\<rparr>
      < 3 / 10"
    by simp
  from C7_low_score_is_no_match[of "[(1, ''core/scanner.py''), (2, ''core/scanner_old.py'')]"
      "''scanner.py''"
      "\<lparr>file_id = 1, match_path = ''core/scanner.py'', score = 3 / 5, match_type = ''fuzzy''\<rparr>"] a
  have d: "\<not> score \<lparr>file_id = 1, match_path = ''core/scanner.py'', score = 3 / 5, match_type = ''fuzzy''\<rparr>
         < 3 / 10"
    by blast
  from C7_low_score_is_no_match[of "[(1, ''x/a.py'')]" "''bcdefghijk/a.py''" _
      "\<lparr>file_id = 1, match_path = ''x/a.py'', score = 1 / 5, match_type = ''filename''\<rparr>"] b c
  have e: "resolve [(1, ''x/a.py'')] ''bcdefghijk/a.py'' = None"
    by blast
  from a b c d e show ?thesis by blast
qed

lemma py_max_from_first:
  "\<exists>pre post. best # xs = pre @ py_max_from key best xs # post
     \<and> (\<forall>x\<in>set pre. key x < key (py_max_from key best xs))
     \<and> (\<forall>x\<in>set post. key x \<le> key (py_max_from key best xs))"
proof (induction xs arbitrary: best)
  case Nil
  have "[best] = [] @ best # []" by simp
  then show ?case by fastforce
next
  case (Cons x xs)
  show ?case
  proof (cases "key best < key x")
    case True
    define M where "M = py_max_from key x xs"
    from Cons.IH[of x] obtain pre post where
      p: "x # xs = pre @ M # post" "\<forall>y\<in>set pre. key y < key M" "\<forall>y\<in>set post. key y \<le> key M"
      unfolding M_def by blast
    have "key x \<le> key M"
    proof (cases pre)
      case Nil
      with p(1) have "x # xs = M # post" by (simp only: append_Nil)
      then have "x = M" by (rule list.inject[THEN iffD1, THEN conjunct1])
      then show ?thesis by simp
    next
      case (Cons a as)
      with p(1) have "x \<in> set pre" by simp
      with p(2) show ?thesis by fastforce
    qed
    with True have kb: "key best < key M" by simp
    have r: "py_max_from key best (x # xs) = M" using True by (simp add: M_def)
    have 1: "best # x # xs = (best # pre) @ M # post" using p(1) by simp
    have 2: "\<forall>y\<in>set (best # pre). key y < key M" using p(2) kb by simp
    show ?thesis unfolding r using 1 2 p(3) by blast
  next
    case False
    define M where "M = py_max_from key best xs"
    from Cons.IH[of best] obtain pre post where
      p: "best # xs = pre @ M # post" "\<forall>y\<in>set pre. key y < key M" "\<forall>y\<in>set post. key y \<le> key M"
      unfolding M_def by blast
    have r: "py_max_from key best (x # xs) = M" using False by (simp add: M_def)
    show ?thesis
    proof (cases pre)
      case Nil
      with p(1) have c: "best # xs = M # post" by (simp only: append_Nil)
      then have e1: "best = M" by (rule list.inject[THEN iffD1, THEN conjunct1])
      from c have e2: "xs = post" by (rule list.inject[THEN iffD1, THEN conjunct2])
      have 1: "best # x # xs = [] @ M # x # post" unfolding e2 using e1 by simp
      have 2: "\<forall>y\<in>set (x # post). key y \<le> key M" using p(3) False e1 by auto
      have 3: "\<forall>y\<in>set ([]::'a list). key y < key M" by simp
      show ?thesis unfolding r using 1 2 3 by blast
    next
      case (Cons a as)
      with p(1) have "best # xs = a # (as @ M # post)" by simp
      then have e: "best = a \<and> xs = as @ M # post" by (rule list.inject[THEN iffD1])
      from p(2) Cons e have "key best < key M" by simp
      with False have kx: "key x < key M" by simp
      have 1: "best # x # xs = (best # x # as) @ M # post" using e by simp
      have 2: "\<forall>y\<in>set (best # x # as). key y < key M" using p(2) Cons e kx by simp
      show ?thesis unfolding r using 1 2 p(3) by blast
    qed
  qed
qed

lemma py_max_first:
  assumes "py_max key xs = Some r"
  shows "\<exists>pre post. xs = pre @ r # post
     \<and> (\<forall>x\<in>set pre. key x < key r) \<and> (\<forall>x\<in>set post. key x \<le> key r)"
proof (cases xs)
  case Nil
  with assms show ?thesis by (simp add: py_max_def)
next
  case (Cons x rest)
  with assms have "r = py_max_from key x rest" by (simp add: py_max_def)
  with py_max_from_first[of x rest key] Cons show ?thesis by simp
qed

text \<open>
  C8 as the specification states it fails: with two candidates of equal score in every
  strategy, the longer path is returned when its row comes first.
\<close>

theorem C8_shorter_path_counterexample:
  "path_similarity ''a.py'' ''xx/a.py'' = path_similarity ''a.py'' ''y/a.py''
   \<and> shared_parts ''a.py'' ''xx/a.py'' = shared_parts ''a.py'' ''y/a.py''
   \<and> levenshtein_ratio ''a.py'' ''xx/a.py'' = levenshtein_ratio ''a.py'' ''y/a.py''
   \<and> length ''y/a.py'' < length ''xx/a.py''
   \<and> map_option match_path (suffix_match [(1, ''xx/a.py''), (2, ''y/a.py'')] ''a.py'') = Some ''xx/a.py''
   \<and> map_option match_path (filename_match [(1, ''xx/a.py''), (2, ''y/a.py'')] ''a.py'') = Some ''xx/a.py''
   \<and> map_option match_path (fuzzy_match [(1, ''xx/a.py''), (2, ''y/a.py'')] ''a.py'') = Some ''xx/a.py''
   \<and> map_option match_path (resolve [(1, ''xx/a.py''), (2, ''y/a.py'')] ''a.py'') = Some ''xx/a.py''"
  by code_simp

text \<open>
  C8, amended: among the rows a strategy considers, the one it returns is the first of
  those whose score is maximal, in the order the index returns its rows: every earlier
  row scores strictly less and no later row scores more, whatever the lengths of the
  paths. Resolving \<open>scanner.py\<close> against an index of \<open>core/scanner.py\<close> and
  \<open>core/scanner_old.py\<close> returns \<open>core/scanner.py\<close>, in either order of the rows.
\<close>

theorem C8_ties_first_row_wins:
  "(suffix_match tbl p = Some m \<longrightarrow>
      (\<exists>pre r post. suffix_rows tbl p = pre @ r # post
         \<and> file_id m = fst r \<and> match_path m = snd r
         \<and> (\<forall>x\<in>set pre. path_similarity p (snd x) < path_similarity p (snd r))
         \<and> (\<forall>x\<in>set post. path_similarity p (snd x) \<le> path_similarity p (snd r))))
   \<and> (filename_match tbl p = Some m \<longrightarrow>
      (\<exists>pre r post. filename_rows tbl p = pre @ r # post
         \<and> file_id m = fst r \<and> match_path m = snd r
         \<and> (\<forall>x\<in>set pre. shared_parts p (snd x) < shared_parts p (snd r))
         \<and> (\<forall>x\<in>set post. shared_parts p (snd x) \<le> shared_parts p (snd r))))
   \<and> (fuzzy_match tbl p = Some m \<longrightarrow>
      (\<exists>pre r post. tbl = pre @ r # post
         \<and> file_id m = fst r \<and> match_path m = snd r
         \<and> (\<forall>x\<in>set pre. levenshtein_ratio p (snd x) < levenshtein_ratio p (snd r))
         \<and> (\<forall>x\<in>set post. levenshtein_ratio p (snd x) \<le> levenshtein_ratio p (snd r))))
   \<and> map_option match_path
         (resolve [(1, ''core/scanner.py''), (2, ''core/scanner_old.py'')] ''scanner.py'')
       = Some ''core/scanner.py''
   \<and> map_option match_path
         (resolve [(2, ''core/scanner_old.py''), (1, ''core/scanner.py'')] ''scanner.py'')
       = Some ''core/scanner.py''"
proof (intro conjI impI)
  assume a: "suffix_match tbl p = Some m"
  then obtain best where b: "py_max (\<lambda>r. path_similarity p (snd r)) (suffix_rows tbl p) = Some best"
    and m: "file_id m = fst best" "match_path m = snd best"
    by (auto simp: suffix_match_def Let_def split: option.splits)
  from py_max_first[OF b] m
  show "\<exists>pre r post. suffix_rows tbl p = pre @ r # post
         \<and> file_id m = fst r \<and> match_path m = snd r
         \<and> (\<forall>x\<in>set pre. path_similarity p (snd x) < path_similarity p (snd r))
         \<and> (\<forall>x\<in>set post. path_similarity p (snd x) \<le> path_similarity p (snd r))"
    by blast
next
  assume a: "filename_match tbl p = Some m"
  then obtain best where b: "py_max (\<lambda>r. shared_parts p (snd r)) (filename_rows tbl p) = Some best"
    and m: "file_id m = fst best" "match_path m = snd best"
    by (auto simp: filename_match_def Let_def split: option.splits)
  from py_max_first[OF b] m
  show "\<exists>pre r post. filename_rows tbl p = pre @ r # post
         \<and> file_id m = fst r \<and> match_path m = snd r
         \<and> (\<forall>x\<in>set pre. shared_parts p (snd x) < shared_parts p (snd r))
         \<and> (\<forall>x\<in>set post. shared_parts p (snd x) \<le> shared_parts p (snd r))"
    by blast
next
  assume a: "fuzzy_match tbl p = Some m"
  let ?scored = "map (\<lambda>f. (f, levenshtein_ratio p (snd f))) tbl"
  from a obtain best ratio where b: "py_max snd ?scored = Some (best, ratio)"
    and m: "file_id m = fst best" "match_path m = snd best"
    by (auto simp: fuzzy_match_def split: option.splits if_splits)
  from py_max_first[OF b] obtain pre post where
    s: "?scored = pre @ (best, ratio) # post"
       "\<forall>x\<in>set pre. snd x < ratio" "\<forall>x\<in>set post. snd x \<le> ratio"
    by auto
  have "map fst ?scored = tbl" by (simp add: comp_def)
  then have t: "tbl = map fst pre @ best # map fst post"
    unfolding s(1) by simp
  from s(1) have sp: "set pre \<subseteq> set ?scored" "set post \<subseteq> set ?scored" "(best, ratio) \<in> set ?scored"
    by auto
  from sp(3) have r: "ratio = levenshtein_ratio p (snd best)" by auto
  have 1: "\<forall>x\<in>set (map fst pre). levenshtein_ratio p (snd x) < levenshtein_ratio p (snd best)"
    using s(2) sp(1) r by fastforce
  have 2: "\<forall>x\<in>set (map fst post). levenshtein_ratio p (snd x) \<le> levenshtein_ratio p (snd best)"
    using s(3) sp(2) r by fastforce
  from t m 1 2
  show "\<exists>pre r post. tbl = pre @ r # post
         \<and> file_id m = fst r \<and> match_path m = snd r
         \<and> (\<forall>x\<in>set pre. levenshtein_ratio p (snd x) < levenshtein_ratio p (snd r))
         \<and> (\<forall>x\<in>set post. levenshtein_ratio p (snd x) \<le> levenshtein_ratio p (snd r))"
    by blast
next
  show "map_option match_path
         (resolve [(1, ''core/scanner.py''), (2, ''core/scanner_old.py'')] ''scanner.py'')
       = Some ''core/scanner.py''"
    by code_simp
  show "map_option match_path
         (resolve [(2, ''core/scanner_old.py''), (1, ''core/scanner.py'')] ''scanner.py'')
       = Some ''core/scanner.py''"
    by code_simp
qed

theorem C8_ties_first_row_witness:
  "suffix_match [(1, ''xx/a.py''), (2, ''y/a.py'')] ''a.py''
     = Some \<lparr>file_id = 1, match_path = ''xx/a.py'', score = 2 / 5, match_type = ''suffix''\<rparr>
   \<and> filename_match [(1, ''xx/a.py''), (2, ''y/a.py'')] ''a.py''
     = Some \<lparr>file_id = 1, match_path = ''xx/a.py'', score = 2 / 5, match_type = ''filename''\<rparr>
   \<and> fuzzy_match [(1, ''xx/a.py''), (2, ''y/a.py'')] ''a.py''
     = Some \<lparr>file_id = 1, match_path = ''xx/a.py'', score = 3 / 5, match_type = ''fuzzy''\<rparr>
   \<and> (\<exists>pre r post. suffix_rows [(1, ''xx/a.py''), (2, ''y/a.py'')] ''a.py'' = pre @ r # post
         \<and> 1 = fst r \<and> ''xx/a.py'' = snd r
         \<and> (\<forall>x\<in>set pre. path_similarity ''a.py'' (snd x) < path_similarity ''a.py'' (snd r))
         \<and> (\<forall>x\<in>set post. path_similarity ''a.py'' (snd x) \<le> path_similarity ''a.py'' (snd r)))
   \<and> (\<exists>pre r post. filename_rows [(1, ''xx/a.py''), (2, ''y/a.py'')] ''a.py'' = pre @ r # post
         \<and> 1 = fst r \<and> ''xx/a.py'' = snd r
         \<and> (\<forall>x\<in>set pre. shared_parts ''a.py'' (snd x) < shared_parts ''a.py'' (snd r))
         \<and> (\<forall>x\<in>set post. shared_parts ''a.py'' (snd x) \<le> shared_parts ''a.py'' (snd r)))
   \<and> (\<exists>pre r post. [(1, ''xx/a.py''), (2, ''y/a.py'')] = pre @ r # post
         \<and> (1::int) = fst r \<and> ''xx/a.py'' = snd r
         \<and> (\<forall>x\<in>set pre. levenshtein_ratio ''a.py'' (snd x) < levenshtein_ratio ''a.py'' (snd r))
         \<and> (\<forall>x\<in>set post. levenshtein_ratio ''a.py'' (snd x) \<le> levenshtein_ratio ''a.py'' (snd r)))"
proof -
  have a1: "suffix_match [(1, ''xx/a.py''), (2, ''y/a.py'')] ''a.py''
     = Some \<lparr>file_id = 1, match_path = ''xx/a.py'', score = 2 / 5, match_type = ''suffix''\<rparr>"
    by code_simp
  have a2: "filename_match [(1, ''xx/a.py''), (2, ''y/a.py'')] ''a.py''
     = Some \<lparr>file_id = 1, match_path = ''xx/a.py'', score = 2 / 5, match_type = ''filename''\<rparr>"
    by code_simp
  have a3: "fuzzy_match [(1, ''xx/a.py''), (2, ''y/a.py'')] ''a.py''
     = Some \<lparr>file_id = 1, match_path = ''xx/a.py'', score = 3 / 5, match_type = ''fuzzy''\<rparr>"
    by code_simp
  note t1 = C8_ties_first_row_wins[of "[(1, ''xx/a.py''), (2, ''y/a.py'')]" "''a.py''"
      "\<lparr>file_id = 1, match_path = ''xx/a.py'', score = 2 / 5, match_type = ''suffix''\<rparr>",
      THEN conjunct1, rule_format, OF a1]
  note t2 = C8_ties_first_row_wins[of "[(1, ''xx/a.py''), (2, ''y/a.py'')]" "''a.py''"
      "\<lparr>file_id = 1, match_path = ''xx/a.py'', score = 2 / 5, match_type = ''filename''\<rparr>",
      THEN conjunct2, THEN conjunct1, rule_format, OF a2]
  note t3 = C8_ties_first_row_wins[of "[(1, ''xx/a.py''), (2, ''y/a.py'')]" "''a.py''"
      "\<lparr>file_id = 1, match_path = ''xx/a.py'', score = 3 / 5, match_type = ''fuzzy''\<rparr>",
      THEN conjunct2, THEN conjunct2, THEN conjunct1, rule_format, OF a3]
  from t1 have b1: "\<exists>pre r post. suffix_rows [(1, ''xx/a.py''), (2, ''y/a.py'')] ''a.py'' = pre @ r # post
         \<and> 1 = fst r \<and> ''xx/a.py'' = snd r
         \<and> (\<forall>x\<in>set pre. path_similarity ''a.py'' (snd x) < path_similarity ''a.py'' (snd r))
         \<and> (\<forall>x\<in>set post. path_similarity ''a.py'' (snd x) \<le> path_similarity ''a.py'' (snd r))"
    by simp
  from t2 have b2: "\<exists>pre r post. filename_rows [(1, ''xx/a.py''), (2, ''y/a.py'')] ''a.py'' = pre @ r # post
         \<and> 1 = fst r \<and> ''xx/a.py'' = snd r
         \<and> (\<forall>x\<in>set pre. shared_parts ''a.py'' (snd x) < shared_parts ''a.py'' (snd r))
         \<and> (\<forall>x\<in>set post. shared_parts ''a.py'' (snd x) \<le> shared_parts ''a.py'' (snd r))"
    by simp
  from t3 have b3: "\<exists>pre r post. [(1, ''xx/a.py''), (2, ''y/a.py'')] = pre @ r # post
         \<and> (1::int) = fst r \<and> ''xx/a.py'' = snd r
         \<and> (\<forall>x\<in>set pre. levenshtein_ratio ''a.py'' (snd x) < levenshtein_ratio ''a.py'' (snd r))
         \<and> (\<forall>x\<in>set post. levenshtein_ratio ''a.py'' (snd x) \<le> levenshtein_ratio ''a.py'' (snd r))"
    by simp
  from a1 a2 a3 b1 b2 b3 show ?thesis by (intro conjI)
qed

subsection \<open>Strategy dispatcher\<close>

text \<open>
  C6 as the specification states it fails: a MODIFY step whose description has a removal
  word and none of the words function, class and method is routed to the
  format-preserving deletion as soon as it declares an entity.
\<close>

theorem C6_removal_without_entity_word_counterexample:
  "py_in ''remove'' (py_lower ''Remove unused import'')
   \<and> \<not> py_in ''function'' (py_lower ''Remove unused import'')
   \<and> \<not> py_in ''class'' (py_lower ''Remove unused import'')
   \<and> \<not> py_in ''method'' (py_lower ''Remove unused import'')
   \<and> looks_like_delete \<lparr>action = ''MODIFY'', target_file = ''a.py'', source_file = None,
         description = ''Remove unused import'', detected_entities = [''foo'']\<rparr> = False
   \<and> process_change ''x = 1'' \<lparr>action = ''MODIFY'', target_file = ''a.py'', source_file = None,
         description = ''Remove unused import'', detected_entities = [''foo'']\<rparr> Map.empty
       = RemoveDefinitionsCst [''foo'']"
  by code_simp

lemma fallback_route_not_cst: "fallback_route original step \<noteq> RemoveDefinitionsCst names"
  by (simp add: fallback_route_def)

text \<open>
  C6, amended: a MODIFY step is routed to the format-preserving deletion exactly when its
  description, in lower case, contains remove, delete or cleanup and the deletion set is
  not empty; the deletion set is the step's declared entities, or the names the
  extraction map records for the target file when the step declares none. Whenever the
  deletion is chosen for a step without declared entities, the names are those of the
  extraction map.
\<close>

theorem C6_modify_deletion_route:
  "(py_upper (action step) = ''MODIFY'' \<longrightarrow>
      (process_change original step emap = RemoveDefinitionsCst names \<longleftrightarrow>
         (py_in ''remove'' (py_lower (description step))
          \<or> py_in ''delete'' (py_lower (description step))
          \<or> py_in ''cleanup'' (py_lower (description step)))
         \<and> names = deletion_entities step emap \<and> names \<noteq> []))
   \<and> (detected_entities step \<noteq> [] \<longrightarrow> deletion_entities step emap = detected_entities step)
   \<and> (process_change original step emap = RemoveDefinitionsCst names \<and> detected_entities step = []
        \<longrightarrow> (\<exists>e. emap (target_file step) = Some e \<and> names = symbols e))"
proof (intro conjI impI)
  assume m: "py_upper (action step) = ''MODIFY''"
  show "process_change original step emap = RemoveDefinitionsCst names \<longleftrightarrow>
         (py_in ''remove'' (py_lower (description step))
          \<or> py_in ''delete'' (py_lower (description step))
          \<or> py_in ''cleanup'' (py_lower (description step)))
         \<and> names = deletion_entities step emap \<and> names \<noteq> []"
    using m fallback_route_not_cst[of original step names]
    by (auto simp: process_change_def Let_def is_delete_def)
next
  assume "detected_entities step \<noteq> []"
  then show "deletion_entities step emap = detected_entities step"
    by (simp add: deletion_entities_def Let_def)
next
  assume a: "process_change original step emap = RemoveDefinitionsCst names \<and> detected_entities step = []"
  then have n: "names = deletion_entities step emap" "names \<noteq> []"
    using fallback_route_not_cst[of original step names]
    by (auto simp: process_change_def Let_def split: if_splits)
  with a have "names = mapped_symbols emap (target_file step)"
    by (auto simp: deletion_entities_def Let_def split: if_splits)
  with n(2) show "\<exists>e. emap (target_file step) = Some e \<and> names = symbols e"
    by (auto simp: mapped_symbols_def split: option.splits)
qed

theorem C6_modify_deletion_witness:
  "py_upper ''modify'' = ''MODIFY''
   \<and> process_change ''x = 1''
        \<lparr>action = ''modify'', target_file = ''a.py'', source_file = None,
         description = ''Cleanup after the move'', detected_entities = []\<rparr>
        [''a.py'' \<mapsto> \<lparr>moved_to = [''b.py''], symbols = [''foo'', ''Bar'']\<rparr>]
       = RemoveDefinitionsCst [''foo'', ''Bar'']
   \<and> py_in ''cleanup'' (py_lower ''Cleanup after the move'')
   \<and> deletion_entities
        \<lparr>action = ''modify'', target_file = ''a.py'', source_file = None,
         description = ''Cleanup after the move'', detected_entities = []\<rparr>
        [''a.py'' \<mapsto> \<lparr>moved_to = [''b.py''], symbols = [''foo'', ''Bar'']\<rparr>] = [''foo'', ''Bar'']
   \<and> deletion_entities
        \<lparr>action = ''MODIFY'', target_file = ''a.py'', source_file = None,
         description = ''remove function foo'', detected_entities = [''foo'']\<rparr> Map.empty = [''foo'']
   \<and> (\<exists>e. [''a.py'' \<mapsto> \<lparr>moved_to = [''b.py''], symbols = [''foo'', ''Bar'']\<rparr>] ''a.py'' = Some e
           \<and> [''foo'', ''Bar''] = symbols e)"
proof -
  let ?step = "\<lparr>action = ''modify'', target_file = ''a.py'', source_file = None,
         description = ''Cleanup after the move'', detected_entities = []\<rparr>"
  let ?emap = "[''a.py'' \<mapsto> \<lparr>moved_to = [''b.py''], symbols = [''foo'', ''Bar'']\<rparr>]"
  let ?step2 = "\<lparr>action = ''MODIFY'', target_file = ''a.py'', source_file = None,
         description = ''remove function foo'', detected_entities = [''foo'']\<rparr>"
  have u: "py_upper (action ?step) = ''MODIFY''" by code_simp
  have k: "py_in ''cleanup'' (py_lower (description ?step))" by code_simp
  have d: "deletion_entities ?step ?emap = [''foo'', ''Bar'']"
    by (simp add: deletion_entities_def mapped_symbols_def)
  note t = C6_modify_deletion_route[of ?step "''x = 1''" ?emap "[''foo'', ''Bar'']"]
  from t[THEN conjunct1, rule_format, OF u] k d
  have r: "process_change ''x = 1'' ?step ?emap = RemoveDefinitionsCst [''foo'', ''Bar'']"
    by simp
  from t[THEN conjunct2, THEN conjunct2] r have e: "\<exists>e. ?emap (target_file ?step) = Some e \<and> [''foo'', ''Bar''] = symbols e"
    by simp
  from C6_modify_deletion_route[of ?step2 "''x = 1''" Map.empty "[''foo'']"]
  have d2: "deletion_entities ?step2 Map.empty = [''foo'']" by simp
  from u k d r e d2 show ?thesis by simp
qed

subsection \<open>Extract-and-modify responses\<close>

lemma py_strip_head: "py_strip s = [] \<or> \<not> is_space (hd (py_strip s))"
proof (cases "dropWhile is_space s")
  case Nil
  have "py_strip s = rev (dropWhile is_space (rev []))"
    unfolding py_strip_def Nil ..
  then show ?thesis by simp
next
  case (Cons a t)
  have na: "\<not> is_space a"
    using hd_dropWhile[of is_space s] Cons by simp
  have "\<exists>w. dropWhile is_space (rev t @ [a]) = w @ [a]"
  proof (cases "\<forall>x\<in>set (rev t). is_space x")
    case True
    then have "dropWhile is_space (rev t @ [a]) = dropWhile is_space [a]"
      by (intro dropWhile_append2) simp
    with na show ?thesis by simp
  next
    case False
    then obtain x where "x \<in> set (rev t)" "\<not> is_space x" by blast
    then have "dropWhile is_space (rev t @ [a]) = dropWhile is_space (rev t) @ [a]"
      by (rule dropWhile_append1)
    then show ?thesis by blast
  qed
  then obtain w where "dropWhile is_space (rev t @ [a]) = w @ [a]" by blast
  with Cons have "py_strip s = a # rev w" by (simp add: py_strip_def)
  with na show ?thesis by simp
qed

lemma py_strip_idem: "py_strip (py_strip s) = py_strip s"
proof -
  have h: "dropWhile is_space (py_strip s) = py_strip s"
    using py_strip_head[of s] by (cases "py_strip s") auto
  have "py_strip (py_strip s) = rev (dropWhile is_space (rev (py_strip s)))"
    unfolding py_strip_def[of "py_strip s"] h ..
  also have "\<dots> = rev (dropWhile is_space (dropWhile is_space (rev (dropWhile is_space s))))"
    by (simp add: py_strip_def)
  also have "\<dots> = py_strip s"
    by (simp add: py_strip_def)
  finally show ?thesis .
qed

lemma clean_llm_code_plain:
  "\<not> prefix ''```'' (py_strip s) \<Longrightarrow> clean_llm_code (py_strip s) = Inr (py_strip s)"
  by (simp add: clean_llm_code_def Let_def py_strip_idem)

lemma splitlines_from_nonempty: "cur \<noteq> [] \<or> s \<noteq> [] \<Longrightarrow> splitlines_from cur s \<noteq> []"
proof (induction s arbitrary: cur)
  case Nil
  then show ?case by simp
next
  case (Cons c cs)
  show ?case
  proof (cases "c = CHR 0x0D")
    case True
    then show ?thesis by (cases cs) simp_all
  next
    case False
    note nc = this
    show ?thesis
    proof (cases "is_linebreak c")
      case True
      with nc show ?thesis by simp
    next
      case False
      have "splitlines_from (c # cur) cs \<noteq> []"
        by (rule Cons.IH) simp
      with nc False show ?thesis by simp
    qed
  qed
qed

lemma clean_llm_code_fenced:
  assumes "prefix ''```'' (py_strip s)"
  shows "clean_llm_code s = Inl (AttributeError ''list object has no attribute startswith'')"
proof -
  from assms have "py_strip s \<noteq> []" by auto
  then have "py_splitlines (py_strip s) \<noteq> []"
    unfolding py_splitlines_def by (intro splitlines_from_nonempty) simp
  with assms show ?thesis by (simp add: clean_llm_code_def Let_def)
qed

text \<open>
  What the parsing does with a response that lacks the end marker, the markers it has
  being in the order of the wire format. When neither section starts with a code fence
  and \<^verbatim>\<open>ast.parse\<close> returns or raises \<^verbatim>\<open>SyntaxError\<close>, both sections are returned, the
  source being the stripped text from after the source marker to the end of the response,
  and the truncation warning is emitted. When a section starts with a code fence,
  \<^verbatim>\<open>_clean_llm_code\<close> raises \<^verbatim>\<open>AttributeError\<close> and the parsing raises with it, where the
  comment at the call says that the fences are removed.
\<close>

lemma unfenced_truncated_response_parses:
  assumes "py_find target_marker raw = Some t_start"
    and "py_find mid_marker raw = Some t_end"
    and "py_find_from source_marker raw t_end = Some s_start"
    and "py_find_from end_marker raw s_start = None"
    and "\<not> prefix ''```'' (py_strip (slice raw (t_start + length target_marker) t_end))"
    and "\<not> prefix ''```'' (py_strip (drop (s_start + length source_marker) raw))"
    and "ast_check (py_strip (drop (s_start + length source_marker) raw)) = None
         \<or> ast_check (py_strip (drop (s_start + length source_marker) raw)) = Some SyntaxError"
  shows "\<exists>r. parse_extract_and_modify ast_check src_file raw = Inr r
           \<and> target_content r = py_strip (slice raw (t_start + length target_marker) t_end)
           \<and> source_content r = py_strip (drop (s_start + length source_marker) raw)
           \<and> TruncatedOutput \<in> set (warnings r)"
  using assms
  by (auto simp: parse_extract_and_modify_def Let_def clean_llm_code_plain)

lemma fenced_truncated_response_raises:
  assumes "py_find target_marker raw = Some t_start"
    and "py_find mid_marker raw = Some t_end"
    and "py_find_from source_marker raw t_end = Some s_start"
    and "py_find_from end_marker raw s_start = None"
    and "prefix ''```'' (py_strip (slice raw (t_start + length target_marker) t_end))
         \<or> prefix ''```'' (py_strip (drop (s_start + length source_marker) raw))"
  shows "parse_extract_and_modify ast_check src_file raw
           = Inl (AttributeError ''list object has no attribute startswith'')"
proof (cases "prefix ''```'' (py_strip (slice raw (t_start + length target_marker) t_end))")
  case True
  then have "clean_llm_code (py_strip (slice raw (t_start + length target_marker) t_end))
               = Inl (AttributeError ''list object has no attribute startswith'')"
    by (intro clean_llm_code_fenced) (simp add: py_strip_idem)
  with assms(1-4) show ?thesis
    by (simp add: parse_extract_and_modify_def Let_def)
next
  case False
  then have t: "clean_llm_code (py_strip (slice raw (t_start + length target_marker) t_end))
               = Inr (py_strip (slice raw (t_start + length target_marker) t_end))"
    by (rule clean_llm_code_plain)
  from False assms(5) have "prefix ''```'' (py_strip (drop (s_start + length source_marker) raw))"
    by simp
  then have "clean_llm_code (py_strip (drop (s_start + length source_marker) raw))
               = Inl (AttributeError ''list object has no attribute startswith'')"
    by (intro clean_llm_code_fenced) (simp add: py_strip_idem)
  with t assms(1-4) show ?thesis
    by (simp add: parse_extract_and_modify_def Let_def)
qed

text \<open>
  C9: the code does not do what the claim says at a response whose markers are in the
  order of the wire format, that lacks the end marker, and whose sections are wrapped in
  code fences: whatever \<^verbatim>\<open>ast.parse\<close> does and whatever the source file is, the parsing
  raises \<^verbatim>\<open>AttributeError\<close> where the claim has it return the two sections with a
  truncation warning.
\<close>

theorem C9_fenced_truncated_response_raises:
  "py_find target_marker
     ''<<<<<<< TARGET_CONTENT\<newline>```python\<newline>y = 2\<newline>```\<newline>=======\<newline><<<<<<< SOURCE_CONTENT\<newline>```python\<newline>x = 1''
     = Some 0
   \<and> py_find mid_marker
     ''<<<<<<< TARGET_CONTENT\<newline>```python\<newline>y = 2\<newline>```\<newline>=======\<newline><<<<<<< SOURCE_CONTENT\<newline>```python\<newline>x = 1''
     = Some 43
   \<and> py_find_from source_marker
     ''<<<<<<< TARGET_CONTENT\<newline>```python\<newline>y = 2\<newline>```\<newline>=======\<newline><<<<<<< SOURCE_CONTENT\<newline>```python\<newline>x = 1''
     43 = Some 51
   \<and> \<not> py_in end_marker
     ''<<<<<<< TARGET_CONTENT\<newline>```python\<newline>y = 2\<newline>```\<newline>=======\<newline><<<<<<< SOURCE_CONTENT\<newline>```python\<newline>x = 1''
   \<and> parse_extract_and_modify ast_check src_file
     ''<<<<<<< TARGET_CONTENT\<newline>```python\<newline>y = 2\<newline>```\<newline>=======\<newline><<<<<<< SOURCE_CONTENT\<newline>```python\<newline>x = 1''
     = Inl (AttributeError ''list object has no attribute startswith'')"
proof -
  let ?raw = "''<<<<<<< TARGET_CONTENT\<newline>```python\<newline>y = 2\<newline>```\<newline>=======\<newline><<<<<<< SOURCE_CONTENT\<newline>```python\<newline>x = 1''"
  have a: "py_find target_marker ?raw = Some 0" by code_simp
  have b: "py_find mid_marker ?raw = Some 43" by code_simp
  have c: "py_find_from source_marker ?raw 43 = Some 51" by code_simp
  have d: "py_find_from end_marker ?raw 51 = None" by code_simp
  have n: "\<not> py_in end_marker ?raw" by code_simp
  have e: "py_strip (slice ?raw (0 + length target_marker) 43) = ''```python\<newline>y = 2\<newline>```''"
    by code_simp
  have "prefix ''```'' (py_strip (slice ?raw (0 + length target_marker) 43))
        \<or> prefix ''```'' (py_strip (drop (51 + length source_marker) ?raw))"
    unfolding e by simp
  from fenced_truncated_response_raises[OF a b c d this, of ast_check src_file] a b c n
  show ?thesis by (intro conjI)
qed

subsection \<open>Structural delete\<close>

lemma py_find_char:
  "py_find [c] s = (if c \<in> set s then Some (length (takeWhile (\<lambda>x. x \<noteq> c) s)) else None)"
  by (induction s) auto

lemma py_find_from_shift:
  "py_find_from sub (A @ S) (length A + k) = map_option (\<lambda>i. length A + i) (py_find_from sub S k)"
  by (auto simp: py_find_from_def option.map_comp comp_def add.commute add.left_commute)

lemma next_line_end_of_shift:
  "next_line_end_of (A @ S) (length A + k) = length A + next_line_end_of S k"
  by (simp add: next_line_end_of_def py_find_from_shift split: option.splits)

lemma slice_shift: "slice (A @ S) (length A + a) (length A + b) = slice S a b"
  by (simp add: slice_def)

lemma scan_block_shift:
  "scan_block (A @ S) t (length A + k) = length A + scan_block S t k"
proof (induction S t k rule: scan_block.induct)
  case (1 code target_indent curr_pos)
  let ?e = "next_line_end_of code curr_pos"
  let ?line = "slice code curr_pos ?e"
  have e: "next_line_end_of (A @ code) (length A + curr_pos) = length A + ?e"
    by (rule next_line_end_of_shift)
  have l: "slice (A @ code) (length A + curr_pos) (length A + ?e) = ?line"
    by (rule slice_shift)
  show ?case
  proof (cases "curr_pos < length code")
    case False
    then show ?thesis
      by (subst scan_block.simps, subst (2) scan_block.simps) simp
  next
    case True
    note lt = this
    show ?thesis
    proof (cases "py_strip ?line = []")
      case True
      from "1.IH"(1)[OF lt refl refl True]
      have ih: "scan_block (A @ code) target_indent (length A + (?e + 1))
                = length A + scan_block code target_indent (?e + 1)" .
      show ?thesis
        using lt True ih
        by (subst scan_block.simps, subst (2) scan_block.simps) (simp add: e l Let_def)
    next
      case False
      note nb = this
      show ?thesis
      proof (cases "current_indent_of ?line \<le> target_indent")
        case True
        show ?thesis
          using lt nb True
          by (subst scan_block.simps, subst (2) scan_block.simps) (simp add: e l Let_def)
      next
        case False
        from "1.IH"(2)[OF lt refl refl nb False]
        have ih: "scan_block (A @ code) target_indent (length A + (?e + 1))
                  = length A + scan_block code target_indent (?e + 1)" .
        show ?thesis
          using lt nb False ih
          by (subst scan_block.simps, subst (2) scan_block.simps) (simp add: e l Let_def)
      qed
    qed
  qed
qed

lemma takeWhile_upto: "c \<notin> set l \<Longrightarrow> takeWhile (\<lambda>x. x \<noteq> c) (l @ c # S) = l"
  by (induction l) auto

lemma takeWhile_absent: "c \<notin> set R \<Longrightarrow> takeWhile (\<lambda>x. x \<noteq> c) R = R"
  by (induction R) auto

lemma next_line_end_of_line:
  "CHR 0x0A \<notin> set l \<Longrightarrow> next_line_end_of (l @ CHR 0x0A # S) 0 = length l"
  by (simp add: next_line_end_of_def py_find_from_def py_find_char takeWhile_upto)

lemma next_line_end_of_first:
  "next_line_end_of R 0 = length (takeWhile (\<lambda>c. c \<noteq> CHR 0x0A) R)"
proof (cases "CHR 0x0A \<in> set R")
  case True
  then show ?thesis by (simp add: next_line_end_of_def py_find_from_def py_find_char)
next
  case False
  then show ?thesis
    by (simp add: next_line_end_of_def py_find_from_def py_find_char takeWhile_absent)
qed

lemma scan_block_line:
  assumes "CHR 0x0A \<notin> set l"
  shows "scan_block (l @ CHR 0x0A # S) t 0 =
           (if py_strip l = [] \<or> t < current_indent_of l
            then Suc (length l) + scan_block S t 0 else 0)"
proof -
  let ?code = "l @ CHR 0x0A # S"
  have e: "next_line_end_of ?code 0 = length l"
    using assms by (rule next_line_end_of_line)
  have s: "slice ?code 0 (length l) = l" by (simp add: slice_def)
  have "scan_block ((l @ [CHR 0x0A]) @ S) t (length (l @ [CHR 0x0A]) + 0)
          = length (l @ [CHR 0x0A]) + scan_block S t 0"
    by (rule scan_block_shift)
  then have sh: "scan_block ?code t (Suc (length l)) = Suc (length l) + scan_block S t 0"
    by simp
  show ?thesis
    by (subst scan_block.simps) (auto simp: e s sh Let_def)
qed

lemma scan_block_body:
  assumes "\<forall>l\<in>set body. CHR 0x0A \<notin> set l \<and> (py_strip l = [] \<or> t < current_indent_of l)"
  shows "scan_block (concat (map (\<lambda>l. l @ [CHR 0x0A]) body) @ R) t 0
           = length (concat (map (\<lambda>l. l @ [CHR 0x0A]) body)) + scan_block R t 0"
  using assms
proof (induction body)
  case Nil
  show ?case by simp
next
  case (Cons l body)
  then have l: "CHR 0x0A \<notin> set l" "py_strip l = [] \<or> t < current_indent_of l" by simp_all
  have "scan_block (l @ CHR 0x0A # (concat (map (\<lambda>l. l @ [CHR 0x0A]) body) @ R)) t 0
        = Suc (length l) + scan_block (concat (map (\<lambda>l. l @ [CHR 0x0A]) body) @ R) t 0"
    using scan_block_line[OF l(1)] l(2) by simp
  with Cons show ?case by simp
qed

lemma scan_block_stop:
  assumes "R = [] \<or> (py_strip (takeWhile (\<lambda>c. c \<noteq> CHR 0x0A) R) \<noteq> []
             \<and> current_indent_of (takeWhile (\<lambda>c. c \<noteq> CHR 0x0A) R) \<le> t)"
  shows "scan_block R t 0 = 0"
proof (cases "R = []")
  case True
  then show ?thesis by (subst scan_block.simps) simp
next
  case False
  have "slice R 0 (next_line_end_of R 0) = takeWhile (\<lambda>c. c \<noteq> CHR 0x0A) R"
    unfolding next_line_end_of_first slice_def
    by (simp add: takeWhile_eq_take[symmetric])
  with False assms show ?thesis
    by (subst scan_block.simps) (simp add: Let_def)
qed

text \<open>
  What the structural delete computes. The first occurrence of the signature lies in a
  line \<open>L\<close> of the text, \<open>P\<close> is the text before that line, the lines after it are blank
  or counted deeper than the text before the signature, and the rest \<open>R\<close> is empty or
  starts with a line that is not blank and is counted no deeper: the result is \<open>P\<close>, the
  replacement and \<open>R\<close>, with nothing between them.
\<close>

lemma smart_delete_span_counted:
  assumes sig: "py_find (py_strip (py_replace_all ''<ELLIPSIS>'' [] search_block)) code = Some start_idx"
    and code: "code = P @ L @ CHR 0x0A # concat (map (\<lambda>l. l @ [CHR 0x0A]) body) @ R"
    and P: "P = [] \<or> last P = CHR 0x0A"
    and L: "CHR 0x0A \<notin> set L"
    and lo: "length P \<le> start_idx"
    and hi: "start_idx \<le> length P + length L"
    and body: "\<forall>l\<in>set body. CHR 0x0A \<notin> set l \<and>
                 (py_strip l = [] \<or>
                  target_indent_of (take (start_idx - length P) L) < current_indent_of l)"
    and R: "R = [] \<or>
              (py_strip (takeWhile (\<lambda>c. c \<noteq> CHR 0x0A) R) \<noteq> [] \<and>
               current_indent_of (takeWhile (\<lambda>c. c \<noteq> CHR 0x0A) R)
                 \<le> target_indent_of (take (start_idx - length P) L))"
  shows "smart_delete code search_block replace_block = Some (P @ replace_block @ R)"
proof -
  define k where "k = start_idx - length P"
  define B where "B = concat (map (\<lambda>l. l @ [CHR 0x0A]) body)"
  define t where "t = target_indent_of (take k L)"
  from lo have si: "start_idx = length P + k"
    by (simp add: k_def)
  from hi have kL: "k \<le> length L"
    unfolding k_def by linarith
  have code': "code = P @ L @ CHR 0x0A # B @ R"
    using code by (simp add: B_def)
  have tk: "take start_idx code = P @ take k L"
    using kL by (simp add: code' si)
  have nl: "CHR 0x0A \<notin> set (take k L)"
    using L by (auto dest: in_set_takeD)
  have rf: "(case py_rfind_char (CHR 0x0A) code start_idx of None \<Rightarrow> 0 | Some i \<Rightarrow> i + 1) = length P"
  proof (cases "P = []")
    case True
    with nl show ?thesis
      by (simp add: py_rfind_char_def tk py_find_char)
  next
    case False
    with P have "P = butlast P @ [CHR 0x0A]"
      using append_butlast_last_id[of P] by simp
    then have rp: "rev P = CHR 0x0A # rev (butlast P)"
      by (metis rev.simps(2) rev_rev_ident rev_singleton_conv rev_append append_Cons append_Nil)
    have e: "rev (P @ take k L) = rev (take k L) @ CHR 0x0A # rev (butlast P)"
      by (simp add: rp)
    have "CHR 0x0A \<notin> set (rev (take k L))" using nl by simp
    then have "py_find [CHR 0x0A] (rev (take k L) @ CHR 0x0A # rev (butlast P))
                 = Some (length (rev (take k L)))"
      by (simp add: py_find_char takeWhile_upto)
    then have f: "py_find [CHR 0x0A] (rev (P @ take k L)) = Some k"
      unfolding e using kL by simp
    have "0 < length P" using False by simp
    then have "length (P @ take k L) - 1 - k + 1 = length P"
      using kL by simp
    then show ?thesis
      unfolding py_rfind_char_def Let_def tk f option.case .
  qed
  have sp: "code = (P @ take k L) @ (drop k L @ CHR 0x0A # B @ R)"
    unfolding code' by (metis append_assoc append_take_drop_id)
  have lp: "start_idx = length (P @ take k L) + 0"
    using kL by (simp add: si)
  have "next_line_end_of ((P @ take k L) @ (drop k L @ CHR 0x0A # B @ R)) (length (P @ take k L) + 0)
          = length (P @ take k L) + next_line_end_of (drop k L @ CHR 0x0A # B @ R) 0"
    by (rule next_line_end_of_shift)
  then have "next_line_end_of code start_idx
          = length (P @ take k L) + next_line_end_of (drop k L @ CHR 0x0A # B @ R) 0"
    unfolding sp[symmetric] lp[symmetric] .
  moreover have "next_line_end_of (drop k L @ CHR 0x0A # B @ R) 0 = length (drop k L)"
    using L by (intro next_line_end_of_line) (auto dest: in_set_dropD)
  ultimately have le: "next_line_end_of code start_idx = length P + length L"
    using kL by simp
  have sl: "slice code (length P) start_idx = take k L"
    using kL by (simp add: slice_def code' si)
  have st: "scan_block R t 0 = 0"
    using R by (intro scan_block_stop) (simp add: t_def k_def)
  have bd: "scan_block (B @ R) t 0 = length B"
    using scan_block_body[of body t R] body st by (simp add: B_def t_def k_def)
  have "scan_block ((P @ L @ [CHR 0x0A]) @ (B @ R)) t (length (P @ L @ [CHR 0x0A]) + 0)
          = length (P @ L @ [CHR 0x0A]) + scan_block (B @ R) t 0"
    by (rule scan_block_shift)
  then have sc: "scan_block code t (length P + length L + 1) = length P + length L + 1 + length B"
    by (simp add: code' bd)
  have dr: "drop (length P + length L + 1 + length B) code = R"
    by (simp add: code')
  have tp: "take (length P) code = P"
    by (simp add: code')
  show ?thesis
    unfolding smart_delete_def Let_def sig option.case rf le sl t_def[symmetric] sc dr tp ..
qed

lemma target_indent_leading:
  assumes "\<forall>c\<in>set W. c = CHR '' '' \<or> c = CHR 0x09"
    and "S = [] \<or> (hd S \<noteq> CHR '' '' \<and> hd S \<noteq> CHR 0x09)"
  shows "current_indent_of (W @ S) = target_indent_of W"
  using assms
proof (induction W)
  case Nil
  then show ?case by (cases S) (simp_all add: target_indent_of_def)
next
  case (Cons c W)
  then have "current_indent_of (W @ S) = target_indent_of W" by simp
  with Cons.prems(1) show ?case by (auto simp: target_indent_of_def)
qed

text \<open>
  The same with the indentation of the signature line itself: the signature starts where
  the leading spaces and tabs \<open>W\<close> of its line end, the lines of the block are blank or
  indented deeper than that line, and \<open>R\<close> is empty or starts with a line that is not
  blank and is indented no deeper than it. The block ends where the claim C2 puts its
  end.
\<close>

lemma smart_delete_span:
  assumes sig: "py_find (py_strip (py_replace_all ''<ELLIPSIS>'' [] search_block)) code
                  = Some (length P + length W)"
    and code: "code = P @ (W @ S) @ CHR 0x0A # concat (map (\<lambda>l. l @ [CHR 0x0A]) body) @ R"
    and P: "P = [] \<or> last P = CHR 0x0A"
    and W: "\<forall>c\<in>set W. c = CHR '' '' \<or> c = CHR 0x09"
    and S: "S = [] \<or> (hd S \<noteq> CHR '' '' \<and> hd S \<noteq> CHR 0x09)"
    and L: "CHR 0x0A \<notin> set (W @ S)"
    and body: "\<forall>l\<in>set body. CHR 0x0A \<notin> set l \<and>
                 (py_strip l = [] \<or> current_indent_of (W @ S) < current_indent_of l)"
    and R: "R = [] \<or>
              (py_strip (takeWhile (\<lambda>c. c \<noteq> CHR 0x0A) R) \<noteq> [] \<and>
               current_indent_of (takeWhile (\<lambda>c. c \<noteq> CHR 0x0A) R) \<le> current_indent_of (W @ S))"
  shows "smart_delete code search_block replace_block = Some (P @ replace_block @ R)"
proof -
  have t: "target_indent_of (take (length P + length W - length P) (W @ S)) = current_indent_of (W @ S)"
    using target_indent_leading[OF W S] by simp
  show ?thesis
  proof (rule smart_delete_span_counted[OF sig code P L])
    show "length P \<le> length P + length W" by simp
    show "length P + length W \<le> length P + length (W @ S)" by simp
    show "\<forall>l\<in>set body. CHR 0x0A \<notin> set l \<and>
            (py_strip l = [] \<or>
             target_indent_of (take (length P + length W - length P) (W @ S)) < current_indent_of l)"
      unfolding t using body .
    show "R = [] \<or>
            (py_strip (takeWhile (\<lambda>c. c \<noteq> CHR 0x0A) R) \<noteq> [] \<and>
             current_indent_of (takeWhile (\<lambda>c. c \<noteq> CHR 0x0A) R)
               \<le> target_indent_of (take (length P + length W - length P) (W @ S)))"
      unfolding t using R .
  qed
qed

lemma smart_delete_span_example:
  "smart_delete
     ''class A:\<newline>    def f(self):\<newline>        a = 1\<newline>\<newline>        return a\<newline>    def g(self):\<newline>        return 2\<newline>''
     ''def f(self):\<newline>    <ELLIPSIS>'' []
   = Some ''class A:\<newline>    def g(self):\<newline>        return 2\<newline>''"
proof -
  let ?code = "''class A:\<newline>    def f(self):\<newline>        a = 1\<newline>\<newline>        return a\<newline>    def g(self):\<newline>        return 2\<newline>''"
  let ?P = "''class A:\<newline>''"
  let ?W = "''    ''"
  let ?S = "''def f(self):''"
  let ?body = "[''        a = 1'', [], ''        return a'']"
  let ?R = "''    def g(self):\<newline>        return 2\<newline>''"
  have a: "py_find (py_strip (py_replace_all ''<ELLIPSIS>'' [] ''def f(self):\<newline>    <ELLIPSIS>'')) ?code
           = Some (length ?P + length ?W)"
    by code_simp
  have b: "?code = ?P @ (?W @ ?S) @ CHR 0x0A # concat (map (\<lambda>l. l @ [CHR 0x0A]) ?body) @ ?R"
    by simp
  have c: "?P = [] \<or> last ?P = CHR 0x0A" by simp
  have d: "\<forall>c\<in>set ?W. c = CHR '' '' \<or> c = CHR 0x09" by simp
  have e: "?S = [] \<or> (hd ?S \<noteq> CHR '' '' \<and> hd ?S \<noteq> CHR 0x09)" by simp
  have f: "CHR 0x0A \<notin> set (?W @ ?S)" by simp
  have g: "\<forall>l\<in>set ?body. CHR 0x0A \<notin> set l \<and>
             (py_strip l = [] \<or> current_indent_of (?W @ ?S) < current_indent_of l)"
    by code_simp
  have h: "?R = [] \<or>
              (py_strip (takeWhile (\<lambda>c. c \<noteq> CHR 0x0A) ?R) \<noteq> [] \<and>
               current_indent_of (takeWhile (\<lambda>c. c \<noteq> CHR 0x0A) ?R) \<le> current_indent_of (?W @ ?S))"
    by code_simp
  from smart_delete_span[OF a b c d e f g h, of "[]"] show ?thesis by simp
qed

text \<open>
  C2: the code does not do what the claim says when the replacement is not empty. The
  loop over the blocks strips the line breaks from both ends of the replacement, and the
  span that the structural delete replaces takes the line break that ended the block: the
  last line of the replacement and the dedented line become one line. For a function
  with a body of five lines and a sibling statement after it, the patch that elides the
  body and replaces the function by a shorter one gives a text in which the sibling
  statement is no line any more; with an empty replacement the signature line and the
  five lines go and the sibling stays as it was.
\<close>

theorem C2_replacement_glued_to_sibling:
  "apply_patches_robust
     ''def f():\<newline>    a = 1\<newline>    b = 2\<newline>    c = 3\<newline>    d = 4\<newline>    return a\<newline>g = 1\<newline>''
     ''<<<<<<< SEARCH\<newline>def f():\<newline>    <ELLIPSIS>\<newline>=======\<newline>def f():\<newline>    return 0\<newline>>>>>>>> REPLACE''
     = Inr \<lparr>modified_code = ''def f():\<newline>    return 0g = 1\<newline>'', applied_count = 1, messages = []\<rparr>
   \<and> ''g = 1'' \<in> set (py_splitlines
       ''def f():\<newline>    a = 1\<newline>    b = 2\<newline>    c = 3\<newline>    d = 4\<newline>    return a\<newline>g = 1\<newline>'')
   \<and> ''g = 1'' \<notin> set (py_splitlines ''def f():\<newline>    return 0g = 1\<newline>'')
   \<and> apply_patches_robust
     ''def f():\<newline>    a = 1\<newline>    b = 2\<newline>    c = 3\<newline>    d = 4\<newline>    return a\<newline>g = 1\<newline>''
     ''<<<<<<< SEARCH\<newline>def f():\<newline>    <ELLIPSIS>\<newline>=======\<newline>\<newline>>>>>>>> REPLACE''
     = Inr \<lparr>modified_code = ''g = 1\<newline>'', applied_count = 1, messages = []\<rparr>"
  by code_simp

subsection \<open>Patch application\<close>















subsection \<open>Definition deletion\<close>

lemma deletion_visit_children_absent:
  assumes "\<And>t. t \<in> set ts \<Longrightarrow> names \<inter> collect t = {} \<Longrightarrow> deletion_visit names t = Some t"
    and "names \<inter> collect_children ts = {}"
  shows "deletion_visit_children names ts = ts"
  using assms
proof (induction ts)
  case Nil
  show ?case by simp
next
  case (Cons a ts)
  from Cons.prems(2) have 1: "names \<inter> collect a = {}" and 2: "names \<inter> collect_children ts = {}"
    by auto
  from Cons.prems(1)[of a] 1 have 3: "deletion_visit names a = Some a" by simp
  from Cons.IH[OF _ 2] Cons.prems(1) have "deletion_visit_children names ts = ts" by simp
  with 3 show ?case by simp
qed

lemma deletion_visit_absent: "names \<inter> collect t = {} \<Longrightarrow> deletion_visit names t = Some t"
proof (induction t)
  case (Def kind name content children)
  then have "deletion_visit_children names children = children"
    by (intro deletion_visit_children_absent) auto
  with Def.prems show ?case by simp
next
  case (Node content children)
  then have "deletion_visit_children names children = children"
    by (intro deletion_visit_children_absent) auto
  then show ?case by simp
qed








text \<open>
  Not part of C5 as amended: for names that the source does not define, the structural
  operation returns what \<^verbatim>\<open>ast.unparse\<close> makes of the parsed tree, and not the source. Its
  docstring says that the source is returned unchanged when nothing matches, and
  \<^verbatim>\<open>_semantic_delete\<close> compares the result with the original to see that nothing was
  deleted; \<^verbatim>\<open>ast.unparse\<close> drops the comments and lays the code out anew, as for the
  source \<open>x = 1  # note\<close> below.
\<close>

lemma delete_definitions_absent_names:
  assumes "names \<noteq> []" and "ast_parse source = Inr tree" and "collect tree \<inter> set names = {}"
  shows "delete_definitions ast_parse ast_unparse source names = Inr (ast_unparse tree)"
proof -
  from assms(3) have "deletion_visit (set names) tree = Some tree"
    by (intro deletion_visit_absent) auto
  with assms(1,2) show ?thesis by (simp add: delete_definitions_def)
qed

lemma delete_definitions_absent_names_example:
  "delete_definitions
     (\<lambda>s. if s = ''x = 1  # note'' then Inr (Node ''Module'' [Node ''Assign'' []]) else Inl SyntaxError)
     (\<lambda>t. if t = Node ''Module'' [Node ''Assign'' []] then ''x = 1'' else [])
     ''x = 1  # note'' [''foo'']
   = Inr ''x = 1''"
  using delete_definitions_absent_names[of "[''foo'']"
      "\<lambda>s. if s = ''x = 1  # note'' then Inr (Node ''Module'' [Node ''Assign'' []]) else Inl SyntaxError"
      "''x = 1  # note''" "Node ''Module'' [Node ''Assign'' []]"
      "\<lambda>t. if t = Node ''Module'' [Node ''Assign'' []] then ''x = 1'' else []"]
  by simp

end
